theory Spec2Isabelle
  imports Complex_Main "HOL-Library.AList"
begin

section \<open>Arrays\<close>

text \<open>
  A NumPy array of floats is a nested list of reals, outermost axis first: a 1-d array is
  a \<open>vec\<close>, an N-by-D sample matrix is a list of N rows of length D, an H-by-W-by-C image
  is a list of H rows of W pixels of C channels. Arithmetic is exact in this section;
  the operations with a rounding after each step follow in the section on rounded
  arithmetic. Where NumPy would continue with \<open>nan\<close> or \<open>inf\<close> entries (a division by
  zero, the square root of a negative number) the model returns \<open>NonFinite\<close> instead of
  the value HOL's total division and root would give: the run then returns arrays
  holding \<open>nan\<close>, or \<open>eigh\<close> raises \<open>LinAlgError\<close> on them, and no array of numbers comes
  back.
\<close>

type_synonym vec = "real list"
type_synonym mat = "real list list"
type_synonym image = "real list list list"

datatype error =
    LinAlgError
  | NonFinite
  | ValueError
  | IndexError
  | FileNotFoundError
  | TypeError

definition ncols :: "'a list list \<Rightarrow> nat" where
  "ncols X = (case X of [] \<Rightarrow> 0 | r # _ \<Rightarrow> length r)"

definition is_matrix :: "nat \<Rightarrow> nat \<Rightarrow> 'a list list \<Rightarrow> bool" where
  "is_matrix N D X = (length X = N \<and> (\<forall>r \<in> set X. length r = D))"

definition is_image :: "nat \<Rightarrow> nat \<Rightarrow> nat \<Rightarrow> 'a list list list \<Rightarrow> bool" where
  "is_image H W C img = (length img = H \<and> (\<forall>row \<in> set img. is_matrix W C row))"

subsection \<open>The NumPy operations the whitening code calls\<close>

definition np_mean_axis0 :: "mat \<Rightarrow> vec" where
  \<comment> \<open>\<open>np.mean(X, axis=0)\<close>\<close>
  "np_mean_axis0 X = map (\<lambda>j. (\<Sum>r\<leftarrow>X. r ! j) / real (length X)) [0..<ncols X]"

definition sub_rows :: "mat \<Rightarrow> vec \<Rightarrow> mat" where
  \<comment> \<open>\<open>X - X_mean\<close>: the vector is broadcast over the rows\<close>
  "sub_rows X m = map (\<lambda>r. map2 (-) r m) X"

datatype cov_result = Scalar real | Matrix mat

definition np_cov :: "mat \<Rightarrow> error + cov_result" where
  \<comment> \<open>\<open>np.cov(X, rowvar=False)\<close>: the columns are the variables. It subtracts the column
      means, forms the products, scales by \<open>1 / (N - 1)\<close> and ends with \<open>squeeze()\<close>, so a
      single variable gives a 0-d array, not a 1-by-1 matrix. With fewer than two rows
      the scale factor is a division by zero and every entry is \<open>nan\<close>.\<close>
  "np_cov X =
     (let N = length X; D = ncols X in
      if D = 0 then Inr (Matrix [])
      else if N < 2 then Inl NonFinite
      else
        let Z = sub_rows X (np_mean_axis0 X);
            c = map (\<lambda>i. map (\<lambda>j. (\<Sum>r\<leftarrow>Z. r ! i * r ! j) * (1 / (real N - 1))) [0..<D]) [0..<D]
        in Inr (if D = 1 then Scalar (c ! 0 ! 0) else Matrix c))"

definition np_argsort :: "vec \<Rightarrow> nat list" where
  \<comment> \<open>A stable argsort: the indices that sort \<open>w\<close> ascending, equal keys in their original
      order. It is one of the results \<open>np.argsort(w)\<close> may give; NumPy's default sort is
      not stable and may put equal keys in another order.\<close>
  "np_argsort w = sort_key (\<lambda>i. w ! i) [0..<length w]"

definition take_idx :: "'a list \<Rightarrow> nat list \<Rightarrow> 'a list" where
  \<comment> \<open>\<open>w[idx]\<close>\<close>
  "take_idx w idx = map (\<lambda>i. w ! i) idx"

definition take_cols :: "'a list list \<Rightarrow> nat list \<Rightarrow> 'a list list" where
  \<comment> \<open>\<open>V[:, idx]\<close>\<close>
  "take_cols V idx = map (\<lambda>r. take_idx r idx) V"

definition np_diag :: "vec \<Rightarrow> mat" where
  \<comment> \<open>\<open>np.diag(d)\<close> of a 1-d array\<close>
  "np_diag d = map (\<lambda>i. map (\<lambda>j. if i = j then d ! i else 0) [0..<length d]) [0..<length d]"

definition column :: "mat \<Rightarrow> nat \<Rightarrow> vec" where
  "column A j = map (\<lambda>r. r ! j) A"

definition dot :: "vec \<Rightarrow> vec \<Rightarrow> real" where
  "dot u v = (\<Sum>(a, b)\<leftarrow>zip u v. a * b)"

definition matmul :: "mat \<Rightarrow> mat \<Rightarrow> mat" where
  \<comment> \<open>\<open>A @ B\<close>\<close>
  "matmul A B = map (\<lambda>r. map (\<lambda>j. dot r (column B j)) [0..<ncols B]) A"

definition reshape_rows :: "'a list list list \<Rightarrow> 'a list list" where
  \<comment> \<open>\<open>img.reshape(-1, C)\<close> of an H-by-W-by-C array: the pixels in row-major order\<close>
  "reshape_rows img = concat img"

definition reshape_image :: "nat \<Rightarrow> nat \<Rightarrow> 'a list \<Rightarrow> 'a list list" where
  \<comment> \<open>\<open>X.reshape(H, W, C)\<close> of an (H*W)-by-C array: H groups of W consecutive rows\<close>
  "reshape_image H W X = map (\<lambda>h. take W (drop (h * W) X)) [0..<H]"

section \<open>PCA whitening\<close>

text \<open>
  \<open>np.linalg.eigh\<close> is LAPACK's symmetric eigensolver, outside the repository: the
  functions take it as the parameter \<open>eigh\<close>, from a matrix to its eigenvalues and the
  matrix whose columns are the eigenvectors. It rejects the 0-d array that \<open>np.cov\<close>
  returns for a single feature with \<open>LinAlgError\<close>.
\<close>

type_synonym eigh = "mat \<Rightarrow> vec \<times> mat"

text \<open>
  \<open>np.argsort\<close> with its default kind leaves the order of equal keys open, so the
  translations of the two functions take it as the parameter \<open>argsort\<close> too;
  \<open>pca_whitening\<close> and \<open>whiten_image\<close> are the functions with the stable \<open>np_argsort\<close>.
\<close>

type_synonym argsort = "vec \<Rightarrow> nat list"

record pca_params =
  mean :: vec
  matrix :: mat

record image_params =
  image_mean :: vec
  image_whitening_matrix :: mat

definition default_epsilon :: real where
  "default_epsilon = 1 / 100000"

definition pca_whitening_with ::
  "argsort \<Rightarrow> eigh \<Rightarrow> mat \<Rightarrow> real \<Rightarrow> error + (mat \<times> pca_params)" where
  "pca_whitening_with argsort eigh X epsilon =
     (let X_mean = np_mean_axis0 X;
          X_centered = sub_rows X X_mean
      in case np_cov X_centered of
           Inl e \<Rightarrow> Inl e
         | Inr (Scalar c) \<Rightarrow> Inl LinAlgError
         | Inr (Matrix cov) \<Rightarrow>
             let (eigenvalues0, eigenvectors0) = eigh cov;
                 idx = rev (argsort eigenvalues0);
                 eigenvalues = take_idx eigenvalues0 idx;
                 eigenvectors = take_cols eigenvectors0 idx
             in if \<exists>x \<in> set eigenvalues. x + epsilon \<le> 0 then Inl NonFinite
                else
                  let whitening_matrix =
                        matmul eigenvectors (np_diag (map (\<lambda>x. 1 / sqrt (x + epsilon)) eigenvalues));
                      X_whitened = matmul X_centered whitening_matrix
                  in Inr (X_whitened, \<lparr>mean = X_mean, matrix = whitening_matrix\<rparr>))"

definition pca_whitening :: "eigh \<Rightarrow> mat \<Rightarrow> real \<Rightarrow> error + (mat \<times> pca_params)" where
  "pca_whitening eigh X epsilon = pca_whitening_with np_argsort eigh X epsilon"

definition whiten_image_with ::
  "argsort \<Rightarrow> eigh \<Rightarrow> image \<Rightarrow> real \<Rightarrow> error + (image \<times> image_params)" where
  "whiten_image_with argsort eigh img epsilon =
     (let H = length img; W = ncols img; C = ncols (concat img) in
      if C = 0 then Inl ValueError
      else
        let X = reshape_rows img;
            X_mean = np_mean_axis0 X;
            X_centered = sub_rows X X_mean
        in case np_cov X_centered of
             Inl e \<Rightarrow> Inl e
           | Inr (Scalar c) \<Rightarrow> Inl LinAlgError
           | Inr (Matrix cov) \<Rightarrow>
               let (eigenvalues0, eigenvectors0) = eigh cov;
                   idx = rev (argsort eigenvalues0);
                   eigenvalues = take_idx eigenvalues0 idx;
                   eigenvectors = take_cols eigenvectors0 idx
               in if \<exists>x \<in> set eigenvalues. x + epsilon \<le> 0 then Inl NonFinite
                  else
                    let whitening_matrix =
                          matmul eigenvectors (np_diag (map (\<lambda>x. 1 / sqrt (x + epsilon)) eigenvalues));
                        X_whitened = matmul X_centered whitening_matrix;
                        whitened = reshape_image H W X_whitened
                    in Inr (whitened, \<lparr>image_mean = X_mean, image_whitening_matrix = whitening_matrix\<rparr>))"

definition whiten_image :: "eigh \<Rightarrow> image \<Rightarrow> real \<Rightarrow> error + (image \<times> image_params)" where
  "whiten_image eigh img epsilon = whiten_image_with np_argsort eigh img epsilon"

section \<open>Rounded arithmetic\<close>

text \<open>
  The code computes in float64: each arithmetic operation returns its exact result
  rounded. For the one property that depends on it, the operations of lines 120-127 are
  written again with a rounding function \<open>fl\<close> applied to the result of each arithmetic
  operation; with the identity as \<open>fl\<close> they are the exact operations above.
  \<open>np.mean(X, axis=0)\<close> adds the rows one after the other and divides the sum by their
  number. The order in which \<open>np.cov\<close> and \<open>@\<close> add their products is left to the library;
  they are added here in the order of the rows.
\<close>

type_synonym rounding = "real \<Rightarrow> real"

definition fl_sum :: "rounding \<Rightarrow> real list \<Rightarrow> real" where
  "fl_sum fl xs = foldl (\<lambda>s x. fl (s + x)) 0 xs"

definition np_mean_axis0_fl :: "rounding \<Rightarrow> mat \<Rightarrow> vec" where
  "np_mean_axis0_fl fl X =
     map (\<lambda>j. fl (fl_sum fl (map (\<lambda>r. r ! j) X) / real (length X))) [0..<ncols X]"

definition sub_rows_fl :: "rounding \<Rightarrow> mat \<Rightarrow> vec \<Rightarrow> mat" where
  "sub_rows_fl fl X m = map (\<lambda>r. map2 (\<lambda>a b. fl (a - b)) r m) X"

definition np_cov_fl :: "rounding \<Rightarrow> mat \<Rightarrow> error + cov_result" where
  "np_cov_fl fl X =
     (let N = length X; D = ncols X in
      if D = 0 then Inr (Matrix [])
      else if N < 2 then Inl NonFinite
      else
        let Z = sub_rows_fl fl X (np_mean_axis0_fl fl X);
            c = map (\<lambda>i. map (\<lambda>j. fl (fl_sum fl (map (\<lambda>r. fl (r ! i * r ! j)) Z)
                                       * fl (1 / (real N - 1)))) [0..<D]) [0..<D]
        in Inr (if D = 1 then Scalar (c ! 0 ! 0) else Matrix c))"

definition dot_fl :: "rounding \<Rightarrow> vec \<Rightarrow> vec \<Rightarrow> real" where
  "dot_fl fl u v = fl_sum fl (map (\<lambda>(a, b). fl (a * b)) (zip u v))"

definition matmul_fl :: "rounding \<Rightarrow> mat \<Rightarrow> mat \<Rightarrow> mat" where
  "matmul_fl fl A B = map (\<lambda>r. map (\<lambda>j. dot_fl fl r (column B j)) [0..<ncols B]) A"

definition whiten_image_fl ::
  "rounding \<Rightarrow> argsort \<Rightarrow> eigh \<Rightarrow> image \<Rightarrow> real \<Rightarrow> error + (image \<times> image_params)" where
  "whiten_image_fl fl argsort eigh img epsilon =
     (let H = length img; W = ncols img; C = ncols (concat img) in
      if C = 0 then Inl ValueError
      else
        let X = reshape_rows img;
            X_mean = np_mean_axis0_fl fl X;
            X_centered = sub_rows_fl fl X X_mean
        in case np_cov_fl fl X_centered of
             Inl e \<Rightarrow> Inl e
           | Inr (Scalar c) \<Rightarrow> Inl LinAlgError
           | Inr (Matrix cov) \<Rightarrow>
               let (eigenvalues0, eigenvectors0) = eigh cov;
                   idx = rev (argsort eigenvalues0);
                   eigenvalues = take_idx eigenvalues0 idx;
                   eigenvectors = take_cols eigenvectors0 idx
               in if \<exists>x \<in> set eigenvalues. fl (x + epsilon) \<le> 0 then Inl NonFinite
                  else
                    let whitening_matrix =
                          matmul_fl fl eigenvectors
                            (np_diag (map (\<lambda>x. fl (1 / fl (sqrt (fl (x + epsilon))))) eigenvalues));
                        X_whitened = matmul_fl fl X_centered whitening_matrix;
                        whitened = reshape_image H W X_whitened
                    in Inr (whitened, \<lparr>image_mean = X_mean, image_whitening_matrix = whitening_matrix\<rparr>))"

text \<open>
  Rounding to float64, to the nearest value with a 53-bit significand, ties to the even
  one, for the numbers float64 holds as normal numbers: \<open>binade n x\<close> is the exponent
  \<open>e\<close> with \<open>2^e \<le> x < 2^(e+1)\<close>, found in at most \<open>n\<close> steps. Subnormal numbers and
  overflow are not modelled.
\<close>

fun binade :: "nat \<Rightarrow> real \<Rightarrow> int" where
  "binade 0 x = 0"
| "binade (Suc n) x =
     (if 2 \<le> x then binade n (x / 2) + 1 else if x < 1 then binade n (2 * x) - 1 else 0)"

definition round_half_even :: "real \<Rightarrow> int" where
  "round_half_even x =
     (let f = \<lfloor>x\<rfloor> in
      if x - of_int f < 1 / 2 then f
      else if 1 / 2 < x - of_int f then f + 1
      else if even f then f else f + 1)"

definition round_f64 :: rounding where
  "round_f64 x =
     (if x = 0 then 0
      else let e = binade 1100 \<bar>x\<bar>; q = 2 powi (e - 52)
           in sgn x * (of_int (round_half_even (\<bar>x\<bar> / q)) * q))"

section \<open>Geometry files\<close>

text \<open>
  The loaders read text files. A path is the list of its components
  (\<open>Path(folder) / run_dir / file_name\<close> appends two of them), the file system maps the
  path of each existing file to its lines, as \<open>readlines()\<close> returns them, and a Python
  dict is the list of its items in insertion order, updated with \<open>AList.update\<close>: a new
  key goes to the end, an old one keeps its place. Converting a token to a float is
  Python's, outside the repository: the loaders take it as the parameter \<open>float_of\<close>,
  \<open>None\<close> where \<open>float\<close> would raise. An \<open>open\<close> of a missing file raises
  \<open>FileNotFoundError\<close>; NumPy raises \<open>ValueError\<close> for rows of unequal length, for a
  token that is no number, for a \<open>reshape\<close> to another size and for a \<open>split\<close> that is not
  even.
\<close>

type_synonym path = "string list"
type_synonym file_system = "path \<Rightarrow> string list option"
type_synonym 'v dict = "(string \<times> 'v) list"
type_synonym geometry = "image list"

definition digit_char :: "nat \<Rightarrow> char" where
  \<comment> \<open>the decimal digit \<open>d < 10\<close>\<close>
  "digit_char d = ''0123456789'' ! d"

function str_of_nat :: "nat \<Rightarrow> string" where
  \<comment> \<open>\<open>f"{n}"\<close> of a non-negative integer\<close>
  "str_of_nat n = (if n < 10 then [digit_char n] else str_of_nat (n div 10) @ [digit_char (n mod 10)])"
  by pat_completeness auto
termination
  by (relation "measure id") auto

declare str_of_nat.simps [simp del]

definition run_dir :: "nat \<Rightarrow> string" where
  \<comment> \<open>\<open>f"run{i}"\<close>\<close>
  "run_dir i = ''run'' @ str_of_nat i"

definition smesh_name :: "nat \<Rightarrow> string" where
  \<comment> \<open>\<open>f"smesh.1.{j}.txt"\<close>\<close>
  "smesh_name j = ''smesh.1.'' @ str_of_nat j @ ''.txt''"

definition is_space :: "char \<Rightarrow> bool" where
  \<comment> \<open>the characters below U+0100 that \<open>str.split()\<close> and \<open>str.strip()\<close> treat as
      whitespace (a \<open>char\<close> is a code point below 256)\<close>
  "is_space c = (c \<in> set [CHR '' '', CHR 0x09, CHR 0x0A, CHR 0x0B, CHR 0x0C, CHR 0x0D,
                            CHR 0x1C, CHR 0x1D, CHR 0x1E, CHR 0x1F, CHR 0x85, CHR 0xA0])"

fun split_from :: "string \<Rightarrow> string \<Rightarrow> string list" where
  "split_from w [] = (if w = [] then [] else [w])"
| "split_from w (c # cs) =
     (if is_space c then (if w = [] then split_from [] cs else w # split_from [] cs)
      else split_from (w @ [c]) cs)"

definition py_split :: "string \<Rightarrow> string list" where
  \<comment> \<open>\<open>line.strip().split()\<close>: the maximal runs of non-whitespace characters\<close>
  "py_split line = split_from [] line"

definition np_array_float :: "(string \<Rightarrow> real option) \<Rightarrow> string list list \<Rightarrow> error + mat" where
  \<comment> \<open>\<open>np.array(rows, dtype=float)\<close> of a list of lists of strings\<close>
  "np_array_float float_of rows =
     (if \<exists>r \<in> set rows. length r \<noteq> ncols rows then Inl ValueError
      else if \<exists>r \<in> set rows. \<exists>t \<in> set r. float_of t = None then Inl ValueError
      else Inr (map (map (\<lambda>t. the (float_of t))) rows))"

definition reshape3 :: "nat \<Rightarrow> nat \<Rightarrow> nat \<Rightarrow> real list \<Rightarrow> error + image" where
  \<comment> \<open>\<open>arr.reshape(A, B, C)\<close>, on the entries of \<open>arr\<close> in row-major order\<close>
  "reshape3 A B C flat =
     (if length flat \<noteq> A * B * C then Inl ValueError
      else Inr (map (\<lambda>a. map (\<lambda>b. take C (drop ((a * B + b) * C) flat)) [0..<B]) [0..<A]))"

definition read_smesh :: "(string \<Rightarrow> real option) \<Rightarrow> string list \<Rightarrow> error + image" where
  \<comment> \<open>line 32: \<open>lines[5:209]\<close> split and converted, \<open>[:, :-1]\<close>, \<open>reshape(17, 12, 3)\<close>. With no
      row at all the array is 1-d and \<open>[:, :-1]\<close> raises \<open>IndexError\<close>.\<close>
  "read_smesh float_of lines =
     (case np_array_float float_of (map py_split (take 204 (drop 5 lines))) of
        Inl e \<Rightarrow> Inl e
      | Inr a \<Rightarrow> if a = [] then Inl IndexError else reshape3 17 12 3 (concat (map butlast a)))"

text \<open>The loop over \<open>j\<close> of lines 25-33, and the loop over \<open>i\<close> of lines 21-34.\<close>

fun read_files :: "(string \<Rightarrow> real option) \<Rightarrow> file_system \<Rightarrow> path \<Rightarrow> nat list \<Rightarrow> error + geometry" where
  "read_files float_of fs run_path [] = Inr []"
| "read_files float_of fs run_path (j # js) =
     (case fs (run_path @ [smesh_name j]) of
        None \<Rightarrow> Inl FileNotFoundError
      | Some lines \<Rightarrow>
          (case read_smesh float_of lines of
             Inl e \<Rightarrow> Inl e
           | Inr content \<Rightarrow>
               (case read_files float_of fs run_path js of
                  Inl e \<Rightarrow> Inl e
                | Inr file_contents \<Rightarrow> Inr (content # file_contents))))"

fun input_runs ::
  "(string \<Rightarrow> real option) \<Rightarrow> file_system \<Rightarrow> path \<Rightarrow> nat list \<Rightarrow> geometry dict \<Rightarrow> error + geometry dict" where
  "input_runs float_of fs master_dir [] input_geometry = Inr input_geometry"
| "input_runs float_of fs master_dir (i # rest) input_geometry =
     (case read_files float_of fs (master_dir @ [run_dir i]) [1..<4] of
        Inl e \<Rightarrow> Inl e
      | Inr file_contents \<Rightarrow>
          input_runs float_of fs master_dir rest
            (AList.update (run_dir i) file_contents input_geometry))"

definition load_input_geometry ::
  "(string \<Rightarrow> real option) \<Rightarrow> file_system \<Rightarrow> path \<Rightarrow> error + geometry dict" where
  "load_input_geometry float_of fs folder_path = input_runs float_of fs folder_path [1..<65] []"

definition timesteps :: "nat list" where
  "timesteps = [80, 140]"

definition pressures :: "string list" where
  "pressures = [''p1'', ''p2'', ''p3'']"

definition temperatures :: "string list" where
  "temperatures = [''t1'', ''t2'', ''t3'', ''t4'', ''t5'']"

definition combinations :: "(nat \<times> string \<times> string) list" where
  \<comment> \<open>the iterations of the three nested loops of lines 45-47, in their order\<close>
  "combinations =
     [(timestep, temperature, pressure).
        timestep \<leftarrow> timesteps, pressure \<leftarrow> pressures, temperature \<leftarrow> temperatures]"

definition result_name :: "nat \<times> string \<times> string \<Rightarrow> nat \<Rightarrow> string" where
  \<comment> \<open>\<open>f"result_{timestep}_{temperature}_{pressure}_{i}"\<close>\<close>
  "result_name c i =
     (case c of (timestep, temperature, pressure) \<Rightarrow>
        ''result_'' @ str_of_nat timestep @ ''_'' @ temperature @ ''_'' @ pressure @ ''_'' @ str_of_nat i)"

definition label_of :: "nat \<times> string \<times> string \<Rightarrow> string" where
  \<comment> \<open>\<open>f"{timestep}_{temperature}_{pressure}"\<close>\<close>
  "label_of c =
     (case c of (timestep, temperature, pressure) \<Rightarrow>
        str_of_nat timestep @ ''_'' @ temperature @ ''_'' @ pressure)"

definition np_split3 :: "mat \<Rightarrow> error + mat list" where
  \<comment> \<open>\<open>np.split(content, 3)\<close>: three equal groups of rows\<close>
  "np_split3 content =
     (if length content mod 3 \<noteq> 0 then Inl ValueError
      else let n = length content div 3
           in Inr [take n content, take n (drop n content), take n (drop (2 * n) content)])"

fun reshape_all :: "mat list \<Rightarrow> error + geometry" where
  \<comment> \<open>\<open>[arr.reshape(17, 12, 3) for arr in parts]\<close>\<close>
  "reshape_all [] = Inr []"
| "reshape_all (arr # arrs) =
     (case reshape3 17 12 3 (concat arr) of
        Inl e \<Rightarrow> Inl e
      | Inr b \<Rightarrow> (case reshape_all arrs of Inl e \<Rightarrow> Inl e | Inr bs \<Rightarrow> Inr (b # bs)))"

definition read_result :: "(string \<Rightarrow> real option) \<Rightarrow> string list \<Rightarrow> error + geometry" where
  \<comment> \<open>lines 53-55: \<open>lines[1:]\<close> split and converted, split in three, each part reshaped\<close>
  "read_result float_of lines =
     (case np_array_float float_of (map py_split (drop 1 lines)) of
        Inl e \<Rightarrow> Inl e
      | Inr content \<Rightarrow>
          (case np_split3 content of
             Inl e \<Rightarrow> Inl e
           | Inr parts \<Rightarrow> reshape_all parts))"

text \<open>
  The loops of lines 45-57 for one run (a file that does not exist is passed over), and
  the loop over \<open>i\<close> of lines 43-59.
\<close>

fun final_files ::
  "(string \<Rightarrow> real option) \<Rightarrow> file_system \<Rightarrow> path \<Rightarrow> nat \<Rightarrow> (nat \<times> string \<times> string) list
     \<Rightarrow> geometry dict \<Rightarrow> error + geometry dict" where
  "final_files float_of fs final_dir i [] run_files = Inr run_files"
| "final_files float_of fs final_dir i (c # rest) run_files =
     (case fs (final_dir @ [result_name c i]) of
        None \<Rightarrow> final_files float_of fs final_dir i rest run_files
      | Some lines \<Rightarrow>
          (case read_result float_of lines of
             Inl e \<Rightarrow> Inl e
           | Inr reshaped_content \<Rightarrow>
               final_files float_of fs final_dir i rest
                 (AList.update (label_of c) reshaped_content run_files)))"

fun final_runs ::
  "(string \<Rightarrow> real option) \<Rightarrow> file_system \<Rightarrow> path \<Rightarrow> nat list \<Rightarrow> geometry dict dict
     \<Rightarrow> error + geometry dict dict" where
  "final_runs float_of fs final_dir [] final_geometry = Inr final_geometry"
| "final_runs float_of fs final_dir (i # rest) final_geometry =
     (case final_files float_of fs final_dir i combinations [] of
        Inl e \<Rightarrow> Inl e
      | Inr run_files \<Rightarrow>
          final_runs float_of fs final_dir rest (AList.update (run_dir i) run_files final_geometry))"

definition load_final_geometry ::
  "(string \<Rightarrow> real option) \<Rightarrow> file_system \<Rightarrow> path \<Rightarrow> error + geometry dict dict" where
  "load_final_geometry float_of fs parent_folder =
     final_runs float_of fs (parent_folder @ [''final_geometry'']) [1..<65] []"

section \<open>Arrays as objects in a store\<close>

text \<open>
  For the question whether a call changes its argument, arrays live in a store: a list
  of buffers, an address being an index. A NumPy call that returns a new array appends
  a buffer; an in-place operation (\<open>X -= avg\<close>, \<open>c *= f\<close>) overwrites the buffer of its
  left operand; a \<open>reshape\<close>, a transpose or a \<open>squeeze\<close> returns a view, a reference to
  the same buffer read with another shape. A failing call returns the error together
  with the store it leaves.
\<close>

type_synonym addr = nat

datatype ndarray =
    Floats0 real
  | Floats1 vec
  | Floats2 mat
  | Floats3 image
  | Ints1 "nat list"

type_synonym store = "ndarray list"

type_synonym 'a store_op = "store \<Rightarrow> (error + 'a) \<times> store"

datatype ref =
    Array addr
  | Rows addr
  | Grid addr nat nat
  | Squeezed addr

text \<open>
  \<open>Array a\<close> is the array at address \<open>a\<close>; \<open>Rows a\<close> is the view \<open>img.reshape(-1, C)\<close> of
  the image at \<open>a\<close>; \<open>Grid a H W\<close> is the view \<open>X.reshape(H, W, C)\<close> of the matrix at \<open>a\<close>; \<open>Squeezed a\<close> is the view \<open>c.squeeze()\<close> of
  the 1-by-1 matrix at \<open>a\<close>, a 0-d array.
\<close>

definition alloc :: "ndarray \<Rightarrow> addr store_op" where
  "alloc a h = (Inr (length h), h @ [a])"

definition raise :: "error \<Rightarrow> 'a store_op" where
  "raise e h = (Inl e, h)"

definition return :: "'a \<Rightarrow> 'a store_op" where
  "return v h = (Inr v, h)"

definition bind :: "'a store_op \<Rightarrow> ('a \<Rightarrow> 'b store_op) \<Rightarrow> 'b store_op" where
  "bind m f h = (case m h of (Inl e, h') \<Rightarrow> (Inl e, h') | (Inr a, h') \<Rightarrow> f a h')"

definition load :: "addr \<Rightarrow> ndarray store_op" where
  "load a h = (if a < length h then (Inr (h ! a), h) else (Inl TypeError, h))"

definition store_write :: "addr \<Rightarrow> ndarray \<Rightarrow> unit store_op" where
  \<comment> \<open>overwrite the buffer at \<open>a\<close>\<close>
  "store_write a v h = (if a < length h then (Inr (), h[a := v]) else (Inl TypeError, h))"

definition get_mat :: "ref \<Rightarrow> mat store_op" where
  "get_mat r =
     (case r of
        Array a \<Rightarrow> bind (load a) (\<lambda>v. case v of Floats2 X \<Rightarrow> return X | _ \<Rightarrow> raise TypeError)
      | Rows a \<Rightarrow>
          bind (load a) (\<lambda>v. case v of Floats3 img \<Rightarrow> return (reshape_rows img) | _ \<Rightarrow> raise TypeError)
      | Grid a H W \<Rightarrow> raise TypeError
      | Squeezed a \<Rightarrow> raise TypeError)"

definition get_vec :: "addr \<Rightarrow> vec store_op" where
  "get_vec a = bind (load a) (\<lambda>v. case v of Floats1 x \<Rightarrow> return x | _ \<Rightarrow> raise TypeError)"

definition get_ints :: "addr \<Rightarrow> nat list store_op" where
  "get_ints a = bind (load a) (\<lambda>v. case v of Ints1 x \<Rightarrow> return x | _ \<Rightarrow> raise TypeError)"

text \<open>
  The calls of lines 98-105 (and 120-127), each reading its operands from the store and
  allocating its result. \<open>eigenvalues + epsilon\<close>, \<open>np.sqrt\<close> and \<open>1.0 /\<close> are three new
  arrays, allocated as one; \<open>np.argsort\<close> is a new array and \<open>[::-1]\<close> a view of it,
  allocated as the reversed array.

  \<open>np.cov\<close> is the one call that writes in place. It starts with
  \<open>X = array(m, ndmin=2, dtype=dtype)\<close>, a copy of its argument (the transpose it takes
  for \<open>rowvar=False\<close> is a view of the copy), computes \<open>avg\<close>, subtracts it with
  \<open>X -= avg[:, None]\<close>, forms \<open>c = dot(X, X_T.conj())\<close>, scales it with
  \<open>c *= np.true_divide(1, fact)\<close> and returns the view \<open>c.squeeze()\<close>.
\<close>

definition np_mean_op :: "ref \<Rightarrow> addr store_op" where
  "np_mean_op X = bind (get_mat X) (\<lambda>Xv. alloc (Floats1 (np_mean_axis0 Xv)))"

definition sub_op :: "ref \<Rightarrow> addr \<Rightarrow> addr store_op" where
  "sub_op X m = bind (get_mat X) (\<lambda>Xv. bind (get_vec m) (\<lambda>mv. alloc (Floats2 (sub_rows Xv mv))))"

definition isub_op :: "addr \<Rightarrow> addr \<Rightarrow> unit store_op" where
  \<comment> \<open>\<open>X -= avg\<close>: the result is written to the buffer of \<open>X\<close>\<close>
  "isub_op X avg =
     bind (get_mat (Array X)) (\<lambda>Xv. bind (get_vec avg) (\<lambda>av. store_write X (Floats2 (sub_rows Xv av))))"

definition gram_op :: "addr \<Rightarrow> addr store_op" where
  \<comment> \<open>\<open>dot(X, X_T.conj())\<close> with the variables as columns: entry (i, j) sums the products of
      columns i and j\<close>
  "gram_op X =
     bind (get_mat (Array X)) (\<lambda>Z.
       alloc (Floats2 (map (\<lambda>i. map (\<lambda>j. (\<Sum>r\<leftarrow>Z. r ! i * r ! j)) [0..<ncols Z]) [0..<ncols Z])))"

definition imul_op :: "addr \<Rightarrow> real \<Rightarrow> unit store_op" where
  \<comment> \<open>\<open>c *= f\<close>: the result is written to the buffer of \<open>c\<close>\<close>
  "imul_op c f = bind (get_mat (Array c)) (\<lambda>cv. store_write c (Floats2 (map (map (\<lambda>x. x * f)) cv)))"

definition np_cov_op :: "addr \<Rightarrow> ref store_op" where
  "np_cov_op m =
     bind (get_mat (Array m)) (\<lambda>mv.
     bind (alloc (Floats2 mv)) (\<lambda>X.
       if ncols mv = 0 then bind (alloc (Floats2 [])) (\<lambda>c. return (Array c))
       else if length mv < 2 then raise NonFinite
       else
         bind (alloc (Floats1 (np_mean_axis0 mv))) (\<lambda>avg.
         bind (isub_op X avg) (\<lambda>_.
         bind (gram_op X) (\<lambda>c.
         bind (imul_op c (1 / (real (length mv) - 1))) (\<lambda>_.
         return (if ncols mv = 1 then Squeezed c else Array c)))))))"

definition eigh_op :: "eigh \<Rightarrow> ref \<Rightarrow> (addr \<times> addr) store_op" where
  "eigh_op eigh cov =
     (case cov of
        Array c \<Rightarrow>
          bind (get_mat (Array c)) (\<lambda>C.
            case eigh C of (w, V) \<Rightarrow>
              bind (alloc (Floats1 w)) (\<lambda>a. bind (alloc (Floats2 V)) (\<lambda>b. return (a, b))))
      | _ \<Rightarrow> raise LinAlgError)"

definition argsort_reversed_op :: "addr \<Rightarrow> addr store_op" where
  "argsort_reversed_op w = bind (get_vec w) (\<lambda>wv. alloc (Ints1 (rev (np_argsort wv))))"

definition take_idx_op :: "addr \<Rightarrow> addr \<Rightarrow> addr store_op" where
  "take_idx_op w idx =
     bind (get_vec w) (\<lambda>wv. bind (get_ints idx) (\<lambda>iv. alloc (Floats1 (take_idx wv iv))))"

definition take_cols_op :: "addr \<Rightarrow> addr \<Rightarrow> addr store_op" where
  "take_cols_op V idx =
     bind (get_mat (Array V)) (\<lambda>Vv. bind (get_ints idx) (\<lambda>iv. alloc (Floats2 (take_cols Vv iv))))"

definition scale_op :: "addr \<Rightarrow> real \<Rightarrow> addr store_op" where
  "scale_op w epsilon =
     bind (get_vec w) (\<lambda>wv.
       if \<exists>x \<in> set wv. x + epsilon \<le> 0 then raise NonFinite
       else alloc (Floats1 (map (\<lambda>x. 1 / sqrt (x + epsilon)) wv)))"

definition np_diag_op :: "addr \<Rightarrow> addr store_op" where
  "np_diag_op d = bind (get_vec d) (\<lambda>dv. alloc (Floats2 (np_diag dv)))"

definition matmul_op :: "addr \<Rightarrow> addr \<Rightarrow> addr store_op" where
  "matmul_op A B =
     bind (get_mat (Array A)) (\<lambda>Av. bind (get_mat (Array B)) (\<lambda>Bv. alloc (Floats2 (matmul Av Bv))))"

definition whitening_steps :: "eigh \<Rightarrow> ref \<Rightarrow> real \<Rightarrow> (addr \<times> addr \<times> addr) store_op" where
  "whitening_steps eigh X epsilon =
     bind (np_mean_op X) (\<lambda>X_mean.
     bind (sub_op X X_mean) (\<lambda>X_centered.
     bind (np_cov_op X_centered) (\<lambda>cov.
     bind (eigh_op eigh cov) (\<lambda>(eigenvalues0, eigenvectors0).
     bind (argsort_reversed_op eigenvalues0) (\<lambda>idx.
     bind (take_idx_op eigenvalues0 idx) (\<lambda>eigenvalues.
     bind (take_cols_op eigenvectors0 idx) (\<lambda>eigenvectors.
     bind (scale_op eigenvalues epsilon) (\<lambda>scale.
     bind (np_diag_op scale) (\<lambda>d.
     bind (matmul_op eigenvectors d) (\<lambda>whitening_matrix.
     bind (matmul_op X_centered whitening_matrix) (\<lambda>X_whitened.
     return (X_whitened, X_mean, whitening_matrix))))))))))))"

definition pca_whitening_store :: "eigh \<Rightarrow> ref \<Rightarrow> real \<Rightarrow> (addr \<times> addr \<times> addr) store_op" where
  "pca_whitening_store eigh X epsilon = whitening_steps eigh X epsilon"

definition whiten_image_store :: "eigh \<Rightarrow> addr \<Rightarrow> real \<Rightarrow> (ref \<times> addr \<times> addr) store_op" where
  "whiten_image_store eigh img epsilon =
     bind (load img) (\<lambda>v.
       case v of
         Floats3 im \<Rightarrow>
           if ncols (concat im) = 0 then raise ValueError
           else
             bind (whitening_steps eigh (Rows img) epsilon) (\<lambda>(X_whitened, X_mean, whitening_matrix).
               return (Grid X_whitened (length im) (ncols im), X_mean, whitening_matrix))
       | _ \<Rightarrow> raise TypeError)"

text \<open>
  An operation keeps the first \<open>n\<close> buffers when, started in a store that has them, it
  ends (returning or raising) in a store that still has them, each with the contents it
  had; \<open>Q\<close> is what is then known of a value it returns.
\<close>

definition keeps :: "nat \<Rightarrow> 'a store_op \<Rightarrow> ('a \<Rightarrow> bool) \<Rightarrow> bool" where
  "keeps n m Q =
     (\<forall>h. n \<le> length h \<longrightarrow>
        (case m h of (r, h') \<Rightarrow>
           n \<le> length h' \<and> take n h' = take n h \<and> (case r of Inl e \<Rightarrow> True | Inr v \<Rightarrow> Q v)))"

text \<open>
  A variant of the centring that writes in place, \<open>X -= X.mean(axis=0)\<close>, and a store
  holding one matrix whose columns are not centred.
\<close>

definition center_in_place :: "addr \<Rightarrow> unit store_op" where
  "center_in_place X = bind (np_mean_op (Array X)) (\<lambda>X_mean. isub_op X X_mean)"

definition uncentered_store :: store where
  "uncentered_store = [Floats2 [[1, 2], [3, 6], [5, 10]]]"

section \<open>What the whitening is meant to compute\<close>

text \<open>
  The quantities the specification names, written with sums over the samples: the
  column-wise empirical mean, the centred samples, the unbiased covariance estimate
  (dividing by N - 1), and what it means for \<open>(w, V)\<close> to be an eigendecomposition of a
  symmetric matrix \<open>C\<close>: the columns of \<open>V\<close> are orthonormal and \<open>C V = V diag(w)\<close>.
\<close>

definition mat_transpose :: "mat \<Rightarrow> mat" where
  "mat_transpose A = map (column A) [0..<ncols A]"

definition identity :: "nat \<Rightarrow> mat" where
  "identity D = np_diag (replicate D 1)"

definition column_mean :: "mat \<Rightarrow> nat \<Rightarrow> real" where
  "column_mean X j = (\<Sum>r\<leftarrow>X. r ! j) / real (length X)"

definition centered :: "mat \<Rightarrow> mat" where
  "centered X = map (\<lambda>r. map (\<lambda>j. r ! j - column_mean X j) [0..<ncols X]) X"

definition covariance :: "mat \<Rightarrow> mat" where
  "covariance X =
     map (\<lambda>i. map (\<lambda>j. (\<Sum>r\<leftarrow>X. (r ! i - column_mean X i) * (r ! j - column_mean X j))
                          / (real (length X) - 1))
                 [0..<ncols X])
         [0..<ncols X]"

definition is_eigh :: "mat \<Rightarrow> vec \<times> mat \<Rightarrow> bool" where
  "is_eigh C r =
     (case r of (w, V) \<Rightarrow>
        length w = length C \<and> is_matrix (length C) (length C) V
        \<and> matmul C V = matmul V (np_diag w)
        \<and> matmul (mat_transpose V) V = identity (length C))"

section \<open>What the code needs of argsort\<close>

text \<open>
  \<open>np.argsort(w)\<close> returns a permutation of the indices of \<open>w\<close> that sorts \<open>w\<close>
  ascending. Whether it also keeps equal keys in their original order depends on the
  sorting algorithm NumPy picks, so that is a separate property.
\<close>

definition sorts_ascending :: "vec \<Rightarrow> nat list \<Rightarrow> bool" where
  "sorts_ascending w idx =
     (distinct idx \<and> set idx = {..<length w} \<and> sorted (map (\<lambda>i. w ! i) idx))"

definition keeps_ties :: "vec \<Rightarrow> nat list \<Rightarrow> bool" where
  "keeps_ties w idx =
     (\<forall>a b. a < b \<and> b < length idx \<and> w ! (idx ! a) = w ! (idx ! b) \<longrightarrow> idx ! a < idx ! b)"

section \<open>Sample inputs\<close>

text \<open>
  Three samples of two features with covariance \<open>diag(9, 0)\<close>; LAPACK returns the
  eigenvalues ascending, so \<open>w = [0, 9]\<close> with the unit vectors as eigenvectors. The
  same samples as a 1-by-3 image of two channels, and a constant image, whose
  covariance is the zero matrix.
\<close>

definition sample_X :: mat where
  "sample_X = [[3, 0], [-3, 0], [0, 0]]"

definition sample_eigh :: eigh where
  "sample_eigh C = ([0, 9], [[0, 1], [1, 0]])"

definition sample_img :: image where
  "sample_img = [[[3, 0], [-3, 0], [0, 0]]]"



text \<open>
  Four samples with the isotropic covariance \<open>diag(2/3, 2/3)\<close>: two equal eigenvalues,
  with the unit vectors as eigenvectors.
\<close>

definition tied_X :: mat where
  "tied_X = [[1, 0], [-1, 0], [0, 1], [0, -1]]"

definition tied_eigh :: eigh where
  "tied_eigh C = ([2 / 3, 2 / 3], [[1, 0], [0, 1]])"

text \<open>The same four samples as a 2-by-2 image of two channels.\<close>

definition tied_img :: image where
  "tied_img = [[[1, 0], [-1, 0]], [[0, 1], [0, -1]]]"

text \<open>
  The float64 nearest to one tenth, and a 1-by-3 image of two channels whose pixels all
  hold it.
\<close>

definition tenth :: real where
  "tenth = 3602879701896397 / 36028797018963968"

definition tenths_img :: image where
  "tenths_img = [[[tenth, tenth], [tenth, tenth], [tenth, tenth]]]"

section \<open>What the loaders are meant to return\<close>

text \<open>
  The file formats in the specification's words: an input file is well formed when it
  has at least 209 lines and lines 6 to 209 hold four numbers each; entry (a, b, c) of
  its block is column c of line 6 + 12 a + b. A result file is well formed when the
  rows after its header line have the same number of columns and split into three equal
  chunks of 612 numbers; its blocks are the three chunks, each filled in row-major order.
\<close>

definition block_of :: "nat \<Rightarrow> nat \<Rightarrow> nat \<Rightarrow> real list \<Rightarrow> image" where
  "block_of A B C flat =
     map (\<lambda>a. map (\<lambda>b. map (\<lambda>c. flat ! ((a * B + b) * C + c)) [0..<C]) [0..<B]) [0..<A]"

definition smesh_well_formed :: "(string \<Rightarrow> real option) \<Rightarrow> string list \<Rightarrow> bool" where
  "smesh_well_formed float_of lines =
     (209 \<le> length lines
      \<and> (\<forall>l \<in> set (take 204 (drop 5 lines)).
            length (py_split l) = 4 \<and> (\<forall>t \<in> set (py_split l). float_of t \<noteq> None)))"

definition smesh_block :: "(string \<Rightarrow> real option) \<Rightarrow> string list \<Rightarrow> image" where
  "smesh_block float_of lines =
     map (\<lambda>a. map (\<lambda>b. map (\<lambda>c. the (float_of (py_split (lines ! (5 + (a * 12 + b))) ! c)))
                         [0..<3]) [0..<12]) [0..<17]"

definition result_well_formed :: "(string \<Rightarrow> real option) \<Rightarrow> string list \<Rightarrow> bool" where
  "result_well_formed float_of lines =
     (let rows = map py_split (drop 1 lines) in
      length rows mod 3 = 0
      \<and> (length rows div 3) * ncols rows = 612
      \<and> (\<forall>r \<in> set rows. length r = ncols rows \<and> (\<forall>t \<in> set r. float_of t \<noteq> None)))"

definition result_blocks :: "(string \<Rightarrow> real option) \<Rightarrow> string list \<Rightarrow> geometry" where
  "result_blocks float_of lines =
     (let content = map (map (\<lambda>t. the (float_of t))) (map py_split (drop 1 lines));
          n = length content div 3
      in map (\<lambda>p. block_of 17 12 3 (concat (take n (drop (p * n) content)))) [0..<3])"

definition final_path :: "path \<Rightarrow> nat \<times> string \<times> string \<Rightarrow> nat \<Rightarrow> path" where
  "final_path parent_folder c i = parent_folder @ [''final_geometry'', result_name c i]"

definition sample_float_of :: "string \<Rightarrow> real option" where
  "sample_float_of s = (if s = ''0'' then Some 0 else if s = ''1'' then Some 1 else None)"


text \<open>
  An input file with five header lines, a first data line, 203 more data lines and a
  trailing line; and a file system holding such files under \<open>data/run*/\<close>, with a first
  data line that tells the three files of a run apart, and \<open>run64\<close> from the other runs.
\<close>

definition smesh_file :: "string \<Rightarrow> string list" where
  "smesh_file first = replicate 5 ''# header'' @ first # replicate 203 ''0 0 0 1'' @ [''end'']"

definition smesh_fs :: file_system where
  "smesh_fs p =
     (if length p = 3 \<and> p ! 0 = ''data'' \<and> take 3 (p ! 1) = ''run'' then
        (if p = [''data'', ''run64'', ''smesh.1.3.txt''] then Some (smesh_file ''1 1 1 0'')
         else if p ! 2 = ''smesh.1.1.txt'' then Some (smesh_file ''1 0 0 0'')
         else if p ! 2 = ''smesh.1.2.txt'' then Some (smesh_file ''0 1 0 0'')
         else if p ! 2 = ''smesh.1.3.txt'' then Some (smesh_file ''0 0 1 0'')
         else None)
      else None)"

text \<open>
  A result file with a header line and three chunks of 204 equal rows, and a file system
  that holds three of them: \<open>result_80_t1_p1_1\<close>, \<open>result_140_t5_p3_1\<close> and
  \<open>result_80_t1_p1_64\<close>, each with rows of its own.
\<close>

definition result_file :: "string \<Rightarrow> string \<Rightarrow> string \<Rightarrow> string list" where
  "result_file a b c = ''x y z'' # replicate 204 a @ replicate 204 b @ replicate 204 c"

definition results_fs :: file_system where
  "results_fs p =
     (if p = [''data'', ''final_geometry'', ''result_80_t1_p1_1'']
      then Some (result_file ''1 0 0'' ''0 1 0'' ''0 0 1'')
      else if p = [''data'', ''final_geometry'', ''result_140_t5_p3_1'']
      then Some (result_file ''1 1 0'' ''0 1 1'' ''1 0 1'')
      else if p = [''data'', ''final_geometry'', ''result_80_t1_p1_64'']
      then Some (result_file ''1 1 1'' ''1 1 1'' ''1 1 1'')
      else None)"

section \<open>Order of the eigenpairs\<close>

lemma np_argsort_length: "length (np_argsort w) = length w"
  by (simp add: np_argsort_def)

lemma np_argsort_set: "set (np_argsort w) = {..<length w}"
  by (auto simp: np_argsort_def)

lemma np_argsort_distinct: "distinct (np_argsort w)"
  by (simp add: np_argsort_def)

lemma np_argsort_sorted: "sorted (take_idx w (np_argsort w))"
  by (simp add: np_argsort_def take_idx_def)

lemma filter_pair_order:
  assumes "sorted_wrt R (filter P xs)" "a < b" "b < length xs" "P (xs ! a)" "P (xs ! b)"
  shows "R (xs ! a) (xs ! b)"
  using assms
proof (induction xs arbitrary: a b)
  case Nil
  then show ?case by simp
next
  case (Cons x xs)
  show ?case
  proof (cases a)
    case 0
    then obtain b' where b: "b = Suc b'" using Cons.prems(2) by (cases b) auto
    have "xs ! b' \<in> set (filter P xs)"
      using Cons.prems b by simp
    then show ?thesis
      using Cons.prems 0 b by simp
  next
    case (Suc a')
    then obtain b' where b: "b = Suc b'" using Cons.prems(2) by (cases b) auto
    have "sorted_wrt R (filter P xs)"
      using Cons.prems(1) by (cases "P x") simp_all
    then have "R (xs ! a') (xs ! b')"
      using Cons.IH[of a' b'] Cons.prems Suc b by simp
    then show ?thesis by (simp add: Suc b)
  qed
qed

lemma np_argsort_ties:
  assumes "a < b" "b < length w" "w ! (np_argsort w ! a) = w ! (np_argsort w ! b)"
  shows "np_argsort w ! a < np_argsort w ! b"
proof -
  let ?k = "w ! (np_argsort w ! a)"
  let ?P = "\<lambda>i. w ! i = ?k"
  have "filter ?P (np_argsort w) = filter ?P [0..<length w]"
    unfolding np_argsort_def by (rule sort_key_stable)
  then have "sorted_wrt (<) (filter ?P (np_argsort w))"
    by (simp add: sorted_wrt_filter)
  moreover have "b < length (np_argsort w)"
    using assms(2) by (simp add: np_argsort_length)
  moreover have "?P (np_argsort w ! a)" "?P (np_argsort w ! b)"
    using assms(3) by simp_all
  ultimately show ?thesis
    using assms(1) filter_pair_order[where P = ?P and R = "(<)" and xs = "np_argsort w" and a = a and b = b]
    by blast
qed

lemma np_argsort_sorts: "sorts_ascending w (np_argsort w)"
  using np_argsort_sorted[of w]
  by (simp add: sorts_ascending_def np_argsort_distinct np_argsort_set take_idx_def)

lemma np_argsort_keeps_ties: "keeps_ties w (np_argsort w)"
  unfolding keeps_ties_def using np_argsort_ties[of _ _ w] by (simp add: np_argsort_length)

lemma sorts_ascending_length: "sorts_ascending w idx \<Longrightarrow> length idx = length w"
proof -
  assume "sorts_ascending w idx"
  then have d: "distinct idx" and e: "set idx = {..<length w}"
    by (simp_all add: sorts_ascending_def)
  have "length idx = card (set idx)" using d by (simp add: distinct_card)
  also have "\<dots> = length w" by (simp add: e)
  finally show ?thesis .
qed

lemma upt_2: "[0..<2] = [0, 1]"
  by (simp add: upt_conv_Cons)

lemma tied_is_eigh: "is_eigh (covariance tied_X) (tied_eigh (covariance tied_X))"
  by (simp add: covariance_def column_mean_def tied_X_def is_eigh_def tied_eigh_def is_matrix_def
      matmul_def np_diag_def mat_transpose_def identity_def column_def dot_def ncols_def upt_2)

lemma tied_order: "np_argsort [2 / 3, 2 / 3] = [0, 1]"
  by (simp add: np_argsort_def upt_2)

section \<open>Entries of the array operations\<close>

lemma ncols_matrix: "is_matrix N D X \<Longrightarrow> 0 < N \<Longrightarrow> ncols X = D"
  by (cases X) (auto simp: is_matrix_def ncols_def)

lemma is_matrix_row: "is_matrix N D X \<Longrightarrow> n < N \<Longrightarrow> length (X ! n) = D"
  by (auto simp: is_matrix_def)

lemma is_matrix_length: "is_matrix N D X \<Longrightarrow> length X = N"
  by (simp add: is_matrix_def)

lemma is_matrixI: "length X = N \<Longrightarrow> (\<And>n. n < N \<Longrightarrow> length (X ! n) = D) \<Longrightarrow> is_matrix N D X"
  by (auto simp: is_matrix_def in_set_conv_nth)

lemma sum_list_rows: "(\<Sum>r\<leftarrow>X. f r) = (\<Sum>n<length X. f (X ! n))"
proof -
  have "(\<Sum>r\<leftarrow>X. f r) = (\<Sum>n = 0..<length X. f (X ! n))"
    by (simp add: sum_list_sum_nth)
  then show ?thesis by (simp add: atLeast0LessThan)
qed

lemma mean_length: "is_matrix N D X \<Longrightarrow> 0 < N \<Longrightarrow> length (np_mean_axis0 X) = D"
  by (simp add: np_mean_axis0_def ncols_matrix)

lemma mean_nth:
  "is_matrix N D X \<Longrightarrow> 0 < N \<Longrightarrow> j < D \<Longrightarrow> np_mean_axis0 X ! j = (\<Sum>n<N. X ! n ! j) / real N"
  by (simp add: np_mean_axis0_def ncols_matrix sum_list_rows is_matrix_length)

lemma sub_rows_matrix: "is_matrix N D X \<Longrightarrow> length m = D \<Longrightarrow> is_matrix N D (sub_rows X m)"
  by (auto simp: is_matrix_def sub_rows_def)

lemma sub_rows_nth:
  "is_matrix N D X \<Longrightarrow> length m = D \<Longrightarrow> n < N \<Longrightarrow> j < D \<Longrightarrow> sub_rows X m ! n ! j = X ! n ! j - m ! j"
  by (simp add: sub_rows_def is_matrix_def)

lemma dot_sum: "length u = length v \<Longrightarrow> dot u v = (\<Sum>k<length u. u ! k * v ! k)"
proof -
  assume l: "length u = length v"
  have "dot u v = (\<Sum>k = 0..<length (zip u v). (case zip u v ! k of (a, b) \<Rightarrow> a * b))"
    unfolding dot_def by (simp add: sum_list_sum_nth)
  also have "\<dots> = (\<Sum>k = 0..<length u. u ! k * v ! k)"
    using l by (intro sum.cong) simp_all
  finally show ?thesis by (simp add: atLeast0LessThan)
qed

lemma matmul_matrix:
  "is_matrix N K A \<Longrightarrow> is_matrix K D B \<Longrightarrow> 0 < K \<Longrightarrow> is_matrix N D (matmul A B)"
  by (auto simp: is_matrix_def matmul_def ncols_matrix[of K D B])

lemma matmul_nth:
  assumes "is_matrix N K A" "is_matrix K D B" "0 < K" "n < N" "j < D"
  shows "matmul A B ! n ! j = (\<Sum>k<K. A ! n ! k * B ! k ! j)"
proof -
  have nc: "ncols B = D" using assms ncols_matrix by blast
  have la: "length (A ! n) = K" using assms is_matrix_row by blast
  have lb: "length B = K" using assms by (simp add: is_matrix_def)
  have "matmul A B ! n ! j = dot (A ! n) (column B j)"
    using assms nc by (simp add: matmul_def is_matrix_def)
  also have "\<dots> = (\<Sum>k<K. A ! n ! k * column B j ! k)"
    using la lb by (simp add: dot_sum column_def)
  also have "\<dots> = (\<Sum>k<K. A ! n ! k * B ! k ! j)"
    using lb by (intro sum.cong) (simp_all add: column_def)
  finally show ?thesis .
qed

lemma np_diag_matrix: "is_matrix (length d) (length d) (np_diag d)"
  by (auto simp: is_matrix_def np_diag_def)

lemma np_diag_nth:
  "i < length d \<Longrightarrow> j < length d \<Longrightarrow> np_diag d ! i ! j = (if i = j then d ! i else 0)"
  by (simp add: np_diag_def)

lemma take_cols_matrix: "is_matrix N D V \<Longrightarrow> is_matrix N (length idx) (take_cols V idx)"
  by (auto simp: is_matrix_def take_cols_def take_idx_def)

lemma take_cols_nth:
  "is_matrix N D V \<Longrightarrow> n < N \<Longrightarrow> j < length idx \<Longrightarrow> take_cols V idx ! n ! j = V ! n ! (idx ! j)"
  by (simp add: is_matrix_def take_cols_def take_idx_def)

lemma take_idx_nth: "j < length idx \<Longrightarrow> take_idx w idx ! j = w ! (idx ! j)"
  by (simp add: take_idx_def)

lemma mat_transpose_matrix: "is_matrix N D A \<Longrightarrow> 0 < N \<Longrightarrow> is_matrix D N (mat_transpose A)"
  by (auto simp: is_matrix_def mat_transpose_def column_def ncols_matrix[of N D A])

lemma mat_transpose_nth:
  "is_matrix N D A \<Longrightarrow> n < N \<Longrightarrow> j < D \<Longrightarrow> mat_transpose A ! j ! n = A ! n ! j"
  by (simp add: is_matrix_def mat_transpose_def column_def ncols_matrix[of N D A])

section \<open>Centring and covariance\<close>

lemma column_mean_sum: "column_mean X j = (\<Sum>n<length X. X ! n ! j) / real (length X)"
  by (simp add: column_mean_def sum_list_rows)

lemma mean_column_mean:
  "is_matrix N D X \<Longrightarrow> 0 < N \<Longrightarrow> j < D \<Longrightarrow> np_mean_axis0 X ! j = column_mean X j"
  by (simp add: np_mean_axis0_def ncols_matrix column_mean_def)

lemma sub_rows_centered:
  assumes "is_matrix N D X" "0 < N"
  shows "sub_rows X (np_mean_axis0 X) = centered X"
proof -
  have nc: "ncols X = D" using assms by (rule ncols_matrix)
  have "map2 (-) r (np_mean_axis0 X) = map (\<lambda>j. r ! j - column_mean X j) [0..<D]"
    if "r \<in> set X" for r
  proof (rule nth_equalityI)
    have lr: "length r = D" using that assms(1) by (simp add: is_matrix_def)
    show "length (map2 (-) r (np_mean_axis0 X)) = length (map (\<lambda>j. r ! j - column_mean X j) [0..<D])"
      using lr mean_length[OF assms] by simp
    fix j assume "j < length (map2 (-) r (np_mean_axis0 X))"
    then have j: "j < D" using lr by simp
    then show "map2 (-) r (np_mean_axis0 X) ! j = map (\<lambda>j. r ! j - column_mean X j) [0..<D] ! j"
      using lr mean_length[OF assms] mean_column_mean[OF assms j] by simp
  qed
  then show ?thesis
    by (simp add: sub_rows_def centered_def nc)
qed

lemma centered_matrix: "is_matrix N D X \<Longrightarrow> 0 < N \<Longrightarrow> is_matrix N D (centered X)"
  by (auto simp: centered_def is_matrix_def ncols_matrix[of N D X])

lemma centered_nth:
  "is_matrix N D X \<Longrightarrow> n < N \<Longrightarrow> j < D \<Longrightarrow> centered X ! n ! j = X ! n ! j - column_mean X j"
  by (simp add: centered_def is_matrix_def ncols_matrix[of N D X])

lemma centered_column_sum:
  assumes "is_matrix N D X" "0 < N" "j < D"
  shows "(\<Sum>n<N. centered X ! n ! j) = 0"
proof -
  have len: "length X = N" using assms(1) by (simp add: is_matrix_def)
  have "(\<Sum>n<N. centered X ! n ! j) = (\<Sum>n<N. X ! n ! j - column_mean X j)"
    using assms by (intro sum.cong) (simp_all add: centered_nth)
  also have "\<dots> = (\<Sum>n<N. X ! n ! j) - real N * column_mean X j"
    by (simp add: sum_subtractf)
  also have "\<dots> = 0"
    using assms(2) by (simp add: column_mean_sum len)
  finally show ?thesis .
qed

lemma centered_column_mean:
  assumes "is_matrix N D X" "0 < N" "j < D"
  shows "column_mean (centered X) j = 0"
proof -
  have "length (centered X) = N" using assms(1) by (simp add: centered_def is_matrix_def)
  then show ?thesis
    using centered_column_sum[OF assms] by (simp add: column_mean_sum)
qed

lemma covariance_matrix: "is_matrix N D X \<Longrightarrow> 0 < N \<Longrightarrow> is_matrix D D (covariance X)"
  by (auto simp: covariance_def is_matrix_def ncols_matrix[of N D X])

lemma covariance_nth:
  assumes "is_matrix N D X" "0 < N" "i < D" "j < D"
  shows "covariance X ! i ! j = (\<Sum>n<N. centered X ! n ! i * centered X ! n ! j) / (real N - 1)"
proof -
  have len: "length X = N" using assms(1) by (simp add: is_matrix_def)
  have nc: "ncols X = D" using assms by (simp add: ncols_matrix)
  have "covariance X ! i ! j =
        (\<Sum>n<N. (X ! n ! i - column_mean X i) * (X ! n ! j - column_mean X j)) / (real N - 1)"
    using assms by (simp add: covariance_def nc sum_list_rows len)
  also have "(\<Sum>n<N. (X ! n ! i - column_mean X i) * (X ! n ! j - column_mean X j))
           = (\<Sum>n<N. centered X ! n ! i * centered X ! n ! j)"
    using assms by (intro sum.cong) (simp_all add: centered_nth)
  finally show ?thesis .
qed

lemma np_cov_centered:
  assumes "is_matrix N D X" "2 \<le> N" "2 \<le> D"
  shows "np_cov (centered X) = Inr (Matrix (covariance X))"
proof -
  have N: "0 < N" using assms(2) by simp
  have cm: "is_matrix N D (centered X)" using assms(1) N by (rule centered_matrix)
  have len: "length (centered X) = N" "length X = N"
    using cm assms(1) by (simp_all add: is_matrix_def)
  have nc: "ncols (centered X) = D" "ncols X = D"
    using cm assms(1) N by (simp_all add: ncols_matrix)
  have again: "sub_rows (centered X) (np_mean_axis0 (centered X)) = centered (centered X)"
    using cm N by (rule sub_rows_centered)
  have entry: "(\<Sum>r\<leftarrow>centered (centered X). r ! i * r ! j) * (1 / (real N - 1))
             = (\<Sum>r\<leftarrow>X. (r ! i - column_mean X i) * (r ! j - column_mean X j)) / (real N - 1)"
    if "i < D" "j < D" for i j
  proof -
    have "(\<Sum>r\<leftarrow>centered (centered X). r ! i * r ! j)
        = (\<Sum>n<N. centered (centered X) ! n ! i * centered (centered X) ! n ! j)"
      using centered_matrix[OF cm N] by (simp add: sum_list_rows is_matrix_def)
    also have "\<dots> = (\<Sum>n<N. (X ! n ! i - column_mean X i) * (X ! n ! j - column_mean X j))"
      using that cm assms(1) N
      by (intro sum.cong) (simp_all add: centered_nth centered_column_mean)
    also have "\<dots> = (\<Sum>r\<leftarrow>X. (r ! i - column_mean X i) * (r ! j - column_mean X j))"
      by (simp add: sum_list_rows len)
    finally show ?thesis by simp
  qed
  have "map (\<lambda>i. map (\<lambda>j. (\<Sum>r\<leftarrow>centered (centered X). r ! i * r ! j) * (1 / (real N - 1))) [0..<D]) [0..<D]
      = covariance X"
    unfolding covariance_def nc len
    by (intro map_cong refl entry) simp_all
  then show ?thesis
    using assms(2,3) by (simp add: np_cov_def Let_def len nc again)
qed

section \<open>The whitening matrix and the whitened samples\<close>

lemma idx_length: "length (rev (np_argsort w)) = length w"
  by (simp add: np_argsort_length)

lemma idx_less: "j < length w \<Longrightarrow> rev (np_argsort w) ! j < length w"
proof -
  assume "j < length w"
  then have "rev (np_argsort w) ! j \<in> set (rev (np_argsort w))"
    by (intro nth_mem) (simp add: np_argsort_length)
  then show ?thesis by (simp add: np_argsort_set)
qed

lemma idx_inj:
  "i < length w \<Longrightarrow> j < length w \<Longrightarrow> rev (np_argsort w) ! i = rev (np_argsort w) ! j \<Longrightarrow> i = j"
  using nth_eq_iff_index_eq[of "rev (np_argsort w)" i j]
  by (simp add: np_argsort_distinct np_argsort_length)

lemma take_idx_subset: "set idx \<subseteq> {..<length w} \<Longrightarrow> set (take_idx w idx) \<subseteq> set w"
  by (auto simp: take_idx_def)

lemma pca_whitening_success:
  assumes "is_matrix N D X" "2 \<le> N" "2 \<le> D"
    and "eigh (covariance X) = (w, V)"
    and "\<forall>x \<in> set w. 0 < x + epsilon"
  shows "pca_whitening eigh X epsilon =
         Inr (matmul (centered X)
                (matmul (take_cols V (rev (np_argsort w)))
                   (np_diag (map (\<lambda>x. 1 / sqrt (x + epsilon)) (take_idx w (rev (np_argsort w)))))),
              \<lparr>mean = np_mean_axis0 X,
               matrix = matmul (take_cols V (rev (np_argsort w)))
                   (np_diag (map (\<lambda>x. 1 / sqrt (x + epsilon)) (take_idx w (rev (np_argsort w)))))\<rparr>)"
proof -
  have N: "0 < N" using assms(2) by simp
  have c: "sub_rows X (np_mean_axis0 X) = centered X"
    using assms(1) N by (rule sub_rows_centered)
  have cov: "np_cov (centered X) = Inr (Matrix (covariance X))"
    using assms(1-3) by (rule np_cov_centered)
  have "set (take_idx w (rev (np_argsort w))) \<subseteq> set w"
    by (rule take_idx_subset) (simp add: np_argsort_set)
  then have pos: "\<not> (\<exists>x \<in> set (take_idx w (rev (np_argsort w))). x + epsilon \<le> 0)"
    using assms(5) by fastforce
  show ?thesis
    unfolding pca_whitening_def pca_whitening_with_def Let_def c cov
    using pos by (simp add: assms(4))
qed

lemma whitening_matrix_shape:
  assumes "is_matrix D D V" "length idx = D" "length s = D" "0 < D"
  shows "is_matrix D D (matmul (take_cols V idx) (np_diag s))"
proof -
  have "is_matrix D D (take_cols V idx)"
    using take_cols_matrix[OF assms(1), of idx] assms(2) by simp
  moreover have "is_matrix D D (np_diag s)"
    using np_diag_matrix[of s] assms(3) by simp
  ultimately show ?thesis using assms(4) by (rule matmul_matrix)
qed

lemma whitening_matrix_nth:
  assumes "is_matrix D D V" "length idx = D" "length s = D" "i < D" "j < D"
  shows "matmul (take_cols V idx) (np_diag s) ! i ! j = V ! i ! (idx ! j) * s ! j"
proof -
  have D: "0 < D" using assms(4) by simp
  have tc: "is_matrix D D (take_cols V idx)"
    using take_cols_matrix[OF assms(1), of idx] assms(2) by simp
  have dg: "is_matrix D D (np_diag s)"
    using np_diag_matrix[of s] assms(3) by simp
  have "matmul (take_cols V idx) (np_diag s) ! i ! j
      = (\<Sum>k<D. take_cols V idx ! i ! k * np_diag s ! k ! j)"
    using tc dg D assms(4,5) by (rule matmul_nth)
  also have "\<dots> = (\<Sum>k<D. if k = j then V ! i ! (idx ! j) * s ! j else 0)"
    using assms by (intro sum.cong) (simp_all add: np_diag_nth take_cols_nth)
  also have "\<dots> = V ! i ! (idx ! j) * s ! j"
    using assms(5) by (simp add: sum.delta)
  finally show ?thesis .
qed

lemma whitened_column_sum:
  assumes "is_matrix N D X" "0 < N" "is_matrix D D Wm" "0 < D" "j < D"
  shows "(\<Sum>n<N. matmul (centered X) Wm ! n ! j) = 0"
proof -
  have cm: "is_matrix N D (centered X)" using assms(1,2) by (rule centered_matrix)
  have "(\<Sum>n<N. matmul (centered X) Wm ! n ! j)
      = (\<Sum>n<N. \<Sum>k<D. centered X ! n ! k * Wm ! k ! j)"
    using cm assms by (intro sum.cong refl matmul_nth) simp_all
  also have "\<dots> = (\<Sum>k<D. \<Sum>n<N. centered X ! n ! k * Wm ! k ! j)"
    by (rule sum.swap)
  also have "\<dots> = (\<Sum>k<D. (\<Sum>n<N. centered X ! n ! k) * Wm ! k ! j)"
    by (simp add: sum_distrib_right)
  also have "\<dots> = (\<Sum>k<D. 0)"
    using assms by (intro sum.cong refl) (simp add: centered_column_sum)
  finally show ?thesis by simp
qed

section \<open>Eigendecomposition\<close>

lemma is_eigh_shape:
  "is_eigh C (w, V) \<Longrightarrow> length w = length C \<and> is_matrix (length C) (length C) V"
  by (simp add: is_eigh_def)

lemma is_eigh_vector:
  assumes "is_eigh C (w, V)" "is_matrix D D C" "i < D" "j < D"
  shows "(\<Sum>k<D. C ! i ! k * V ! k ! j) = V ! i ! j * w ! j"
proof -
  have D: "0 < D" and len: "length C = D" using assms(2,3) by (simp_all add: is_matrix_def)
  have V: "is_matrix D D V" and w: "length w = D"
    using assms(1) len by (simp_all add: is_eigh_def)
  have dg: "is_matrix D D (np_diag w)" using np_diag_matrix[of w] w by simp
  have "(\<Sum>k<D. C ! i ! k * V ! k ! j) = matmul C V ! i ! j"
    using assms(2) V D assms(3,4) by (rule matmul_nth[symmetric])
  also have "\<dots> = matmul V (np_diag w) ! i ! j"
    using assms(1) by (simp add: is_eigh_def)
  also have "\<dots> = (\<Sum>k<D. V ! i ! k * np_diag w ! k ! j)"
    using V dg D assms(3,4) by (rule matmul_nth)
  also have "\<dots> = (\<Sum>k<D. if k = j then V ! i ! j * w ! j else 0)"
    using w assms(4) by (intro sum.cong) (simp_all add: np_diag_nth)
  also have "\<dots> = V ! i ! j * w ! j"
    using assms(4) by (simp add: sum.delta)
  finally show ?thesis .
qed

lemma is_eigh_orthonormal:
  assumes "is_eigh C (w, V)" "length C = D" "i < D" "j < D"
  shows "(\<Sum>k<D. V ! k ! i * V ! k ! j) = (if i = j then 1 else 0)"
proof -
  have D: "0 < D" using assms(3) by simp
  have V: "is_matrix D D V"
    using assms(1,2) by (simp add: is_eigh_def)
  have T: "is_matrix D D (mat_transpose V)" using V D by (rule mat_transpose_matrix)
  have "(\<Sum>k<D. V ! k ! i * V ! k ! j) = (\<Sum>k<D. mat_transpose V ! i ! k * V ! k ! j)"
    using V assms(3) by (intro sum.cong) (simp_all add: mat_transpose_nth)
  also have "\<dots> = matmul (mat_transpose V) V ! i ! j"
    using T V D assms(3,4) by (rule matmul_nth[symmetric])
  also have "\<dots> = identity D ! i ! j"
    using assms(1,2) by (simp add: is_eigh_def)
  also have "\<dots> = (if i = j then 1 else 0)"
    using assms(3,4) by (simp add: identity_def np_diag_nth)
  finally show ?thesis .
qed

text \<open>The projections of the centred samples on two eigenvectors.\<close>

lemma projection_products:
  fixes S V :: mat
  shows "(\<Sum>n<N. (\<Sum>k<D. S ! n ! k * V ! k ! a) * (\<Sum>l<D. S ! n ! l * V ! l ! b))
       = (\<Sum>k<D. \<Sum>l<D. V ! k ! a * V ! l ! b * (\<Sum>n<N. S ! n ! k * S ! n ! l))"
proof -
  have "(\<Sum>n<N. (\<Sum>k<D. S ! n ! k * V ! k ! a) * (\<Sum>l<D. S ! n ! l * V ! l ! b))
      = (\<Sum>n<N. \<Sum>k<D. \<Sum>l<D. V ! k ! a * V ! l ! b * (S ! n ! k * S ! n ! l))"
    by (simp add: sum_product mult_ac)
  also have "\<dots> = (\<Sum>k<D. \<Sum>n<N. \<Sum>l<D. V ! k ! a * V ! l ! b * (S ! n ! k * S ! n ! l))"
    by (rule sum.swap)
  also have "\<dots> = (\<Sum>k<D. \<Sum>l<D. \<Sum>n<N. V ! k ! a * V ! l ! b * (S ! n ! k * S ! n ! l))"
    by (intro sum.cong refl sum.swap)
  also have "\<dots> = (\<Sum>k<D. \<Sum>l<D. V ! k ! a * V ! l ! b * (\<Sum>n<N. S ! n ! k * S ! n ! l))"
    by (simp add: sum_distrib_left)
  finally show ?thesis .
qed

lemma projection_covariance:
  assumes "is_matrix N D X" "2 \<le> N" "is_eigh (covariance X) (w, V)" "a < D" "b < D"
  shows "(\<Sum>n<N. (\<Sum>k<D. centered X ! n ! k * V ! k ! a) * (\<Sum>l<D. centered X ! n ! l * V ! l ! b))
       = (real N - 1) * (if a = b then w ! b else 0)"
proof -
  have N: "0 < N" "real N - 1 \<noteq> 0" using assms(2) by simp_all
  have C: "is_matrix D D (covariance X)" using assms(1) N(1) by (rule covariance_matrix)
  have lenC: "length (covariance X) = D" using C by (simp add: is_matrix_def)
  have prod: "(\<Sum>n<N. centered X ! n ! k * centered X ! n ! l) = (real N - 1) * covariance X ! k ! l"
    if "k < D" "l < D" for k l
    using covariance_nth[OF assms(1) N(1) that] N(2) by simp
  have "(\<Sum>n<N. (\<Sum>k<D. centered X ! n ! k * V ! k ! a) * (\<Sum>l<D. centered X ! n ! l * V ! l ! b))
      = (\<Sum>k<D. \<Sum>l<D. V ! k ! a * V ! l ! b * (\<Sum>n<N. centered X ! n ! k * centered X ! n ! l))"
    by (rule projection_products)
  also have "\<dots> = (\<Sum>k<D. \<Sum>l<D. V ! k ! a * V ! l ! b * ((real N - 1) * covariance X ! k ! l))"
    by (intro sum.cong refl) (simp add: prod)
  also have "\<dots> = (\<Sum>k<D. (real N - 1) * V ! k ! a * (\<Sum>l<D. covariance X ! k ! l * V ! l ! b))"
    by (simp add: sum_distrib_left mult_ac)
  also have "\<dots> = (\<Sum>k<D. (real N - 1) * V ! k ! a * (V ! k ! b * w ! b))"
    using assms(5) by (intro sum.cong refl) (simp add: is_eigh_vector[OF assms(3) C])
  also have "\<dots> = (real N - 1) * w ! b * (\<Sum>k<D. V ! k ! a * V ! k ! b)"
    by (simp add: sum_distrib_left mult_ac)
  also have "\<dots> = (real N - 1) * (if a = b then w ! b else 0)"
    using is_eigh_orthonormal[OF assms(3) lenC assms(4,5)] by simp
  finally show ?thesis .
qed

lemma eigenvalue_nonneg:
  assumes "is_matrix N D X" "2 \<le> N" "is_eigh (covariance X) (w, V)" "a < D"
  shows "0 \<le> w ! a"
proof -
  have "0 \<le> (\<Sum>n<N. (\<Sum>k<D. centered X ! n ! k * V ! k ! a) * (\<Sum>l<D. centered X ! n ! l * V ! l ! a))"
    by (intro sum_nonneg) simp
  then have "0 \<le> (real N - 1) * w ! a"
    using projection_covariance[OF assms(1-3) assms(4) assms(4)] by simp
  moreover have "0 < real N - 1" using assms(2) by simp
  ultimately show ?thesis by (simp add: zero_le_mult_iff)
qed

lemma eigenvalues_stabilised:
  assumes "is_matrix N D X" "2 \<le> N" "is_eigh (covariance X) (w, V)" "0 < epsilon"
  shows "\<forall>x \<in> set w. 0 < x + epsilon"
proof
  fix x assume "x \<in> set w"
  then obtain a where a: "a < length w" "x = w ! a" by (auto simp: in_set_conv_nth)
  have "0 < N" using assms(2) by simp
  then have "length (covariance X) = D"
    using covariance_matrix[OF assms(1)] by (simp add: is_matrix_def)
  then have "length w = D" using assms(3) by (simp add: is_eigh_def)
  then have "0 \<le> w ! a" using eigenvalue_nonneg[OF assms(1-3)] a(1) by simp
  then show "0 < x + epsilon" using a(2) assms(4) by simp
qed

lemma whitened_nth:
  assumes "is_matrix N D X" "0 < N" "is_matrix D D V" "length idx = D" "length s = D"
    and "n < N" "j < D"
  shows "matmul (centered X) (matmul (take_cols V idx) (np_diag s)) ! n ! j
       = (\<Sum>k<D. centered X ! n ! k * V ! k ! (idx ! j)) * s ! j"
proof -
  have D: "0 < D" using assms(7) by simp
  have cm: "is_matrix N D (centered X)" using assms(1,2) by (rule centered_matrix)
  have wm: "is_matrix D D (matmul (take_cols V idx) (np_diag s))"
    using assms(3-5) D by (rule whitening_matrix_shape)
  have "matmul (centered X) (matmul (take_cols V idx) (np_diag s)) ! n ! j
      = (\<Sum>k<D. centered X ! n ! k * matmul (take_cols V idx) (np_diag s) ! k ! j)"
    using cm wm D assms(6,7) by (rule matmul_nth)
  also have "\<dots> = (\<Sum>k<D. centered X ! n ! k * (V ! k ! (idx ! j) * s ! j))"
    using assms(3-5) assms(7) by (intro sum.cong refl) (simp add: whitening_matrix_nth)
  also have "\<dots> = (\<Sum>k<D. centered X ! n ! k * V ! k ! (idx ! j)) * s ! j"
    by (simp add: sum_distrib_right mult.assoc)
  finally show ?thesis .
qed

lemma centered_of_zero_mean:
  assumes "is_matrix N D Y" "0 < N" "\<forall>j<D. (\<Sum>n<N. Y ! n ! j) = 0" "n < N" "j < D"
  shows "centered Y ! n ! j = Y ! n ! j"
proof -
  have "length Y = N" using assms(1) by (simp add: is_matrix_def)
  then have "column_mean Y j = 0"
    using assms(3,5) by (simp add: column_mean_sum)
  then show ?thesis using assms by (simp add: centered_nth)
qed

lemma inverse_root_square:
  fixes a :: real
  assumes "0 < a"
  shows "(1 / sqrt a) * (1 / sqrt a) = 1 / a"
proof -
  have "sqrt a * sqrt a = a" using assms by simp
  then show ?thesis by (simp add: divide_simps)
qed

lemma whitened_covariance_nth:
  assumes "is_matrix N D X" "2 \<le> N" "is_eigh (covariance X) (w, V)" "0 < epsilon"
    and "i < D" "j < D"
  defines "idx \<equiv> rev (np_argsort w)"
  defines "Y \<equiv> matmul (centered X)
                 (matmul (take_cols V idx) (np_diag (map (\<lambda>x. 1 / sqrt (x + epsilon)) (take_idx w idx))))"
  shows "covariance Y ! i ! j
       = (if i = j then w ! (idx ! j) / (w ! (idx ! j) + epsilon) else 0)"
proof -
  let ?s = "map (\<lambda>x. 1 / sqrt (x + epsilon)) (take_idx w idx)"
  let ?P = "\<lambda>n a. (\<Sum>k<D. centered X ! n ! k * V ! k ! a)"
  have N: "0 < N" "real N - 1 \<noteq> 0" using assms(2) by simp_all
  have D: "0 < D" using assms(5) by simp
  have lenC: "length (covariance X) = D"
    using covariance_matrix[OF assms(1) N(1)] by (simp add: is_matrix_def)
  have V: "is_matrix D D V" and w: "length w = D"
    using assms(3) lenC by (simp_all add: is_eigh_def)
  have idx: "length idx = D" by (simp add: idx_def np_argsort_length w)
  have s: "length ?s = D" by (simp add: take_idx_def idx)
  have ii: "idx ! i < D" and ij: "idx ! j < D"
    using idx_less[of i w] idx_less[of j w] assms(5,6) w by (simp_all add: idx_def)
  have cm: "is_matrix N D (centered X)" using assms(1) N(1) by (rule centered_matrix)
  have wm: "is_matrix D D (matmul (take_cols V idx) (np_diag ?s))"
    using V idx s D by (rule whitening_matrix_shape)
  have Y: "is_matrix N D Y" unfolding Y_def using cm wm D by (rule matmul_matrix)
  have zero: "\<forall>c<D. (\<Sum>n<N. Y ! n ! c) = 0"
    unfolding Y_def using whitened_column_sum[OF assms(1) N(1) wm D] by blast
  have entry: "Y ! n ! c = ?P n (idx ! c) * ?s ! c" if "n < N" "c < D" for n c
    unfolding Y_def using assms(1) N(1) V idx s that by (rule whitened_nth)
  have "covariance Y ! i ! j = (\<Sum>n<N. centered Y ! n ! i * centered Y ! n ! j) / (real N - 1)"
    using Y N(1) assms(5,6) by (rule covariance_nth)
  also have "(\<Sum>n<N. centered Y ! n ! i * centered Y ! n ! j) = (\<Sum>n<N. Y ! n ! i * Y ! n ! j)"
    using centered_of_zero_mean[OF Y N(1) zero] assms(5,6) by (intro sum.cong refl) simp
  also have "\<dots> = (\<Sum>n<N. (?s ! i * ?s ! j) * (?P n (idx ! i) * ?P n (idx ! j)))"
    using assms(5,6) by (intro sum.cong refl) (simp add: entry mult_ac)
  also have "\<dots> = (?s ! i * ?s ! j) * (\<Sum>n<N. ?P n (idx ! i) * ?P n (idx ! j))"
    by (simp add: sum_distrib_left)
  also have "(\<Sum>n<N. ?P n (idx ! i) * ?P n (idx ! j))
           = (real N - 1) * (if idx ! i = idx ! j then w ! (idx ! j) else 0)"
    using assms(1-3) ii ij by (rule projection_covariance)
  also have "(idx ! i = idx ! j) = (i = j)"
    using idx_inj[of i w j] assms(5,6) w by (auto simp: idx_def)
  finally have cov: "covariance Y ! i ! j
      = (?s ! i * ?s ! j) * (if i = j then w ! (idx ! j) else 0)"
    using N(2) by simp
  show ?thesis
  proof (cases "i = j")
    case False
    then show ?thesis using cov by simp
  next
    case True
    have "0 \<le> w ! (idx ! j)"
      using eigenvalue_nonneg[OF assms(1-3) ij] .
    then have pos: "0 < w ! (idx ! j) + epsilon" using assms(4) by simp
    have "?s ! j = 1 / sqrt (w ! (idx ! j) + epsilon)"
      using assms(6) idx by (simp add: take_idx_def)
    then have "?s ! j * ?s ! j = 1 / (w ! (idx ! j) + epsilon)"
      using inverse_root_square[OF pos] by simp
    then show ?thesis using cov True by simp
  qed
qed

section \<open>The sample run\<close>

lemma sqrt_16: "sqrt 16 = 4"
  using real_sqrt_abs[of 4] by simp

lemma sqrt_25: "sqrt 25 = 5"
  using real_sqrt_abs[of 5] by simp

lemma sample_is_matrix: "is_matrix 3 2 sample_X"
  by (simp add: is_matrix_def sample_X_def)

lemma sample_covariance: "covariance sample_X = [[9, 0], [0, 0]]"
  by (simp add: covariance_def column_mean_def sample_X_def ncols_def upt_2)

lemma sample_is_eigh: "is_eigh (covariance sample_X) (sample_eigh (covariance sample_X))"
  by (simp add: sample_covariance is_eigh_def sample_eigh_def is_matrix_def matmul_def
      np_diag_def mat_transpose_def identity_def column_def dot_def ncols_def upt_2)

lemma sample_order: "np_argsort [0, 9] = [0, 1]"
  by (simp add: np_argsort_def upt_2)

lemma sample_run:
  "pca_whitening sample_eigh sample_X 16 =
     Inr ([[3/5, 0], [-3/5, 0], [0, 0]], \<lparr>mean = [0, 0], matrix = [[1/5, 0], [0, 1/4]]\<rparr>)"
  by (simp add: pca_whitening_def pca_whitening_with_def sample_X_def sample_eigh_def np_mean_axis0_def sub_rows_def
      np_cov_def ncols_def upt_2 sample_order take_idx_def take_cols_def matmul_def np_diag_def
      column_def dot_def sqrt_16 sqrt_25 Let_def)

section \<open>Properties of \<open>pca_whitening\<close>\<close>

lemma pca_whitening_result:
  assumes "is_matrix N D X" "2 \<le> N" "2 \<le> D"
    and "eigh (covariance X) = (w, V)" "length w = D" "is_matrix D D V"
    and "\<forall>x \<in> set w. 0 < x + epsilon"
  defines "idx \<equiv> rev (np_argsort w)"
  defines "Wm \<equiv> matmul (take_cols V idx) (np_diag (map (\<lambda>x. 1 / sqrt (x + epsilon)) (take_idx w idx)))"
  shows "pca_whitening eigh X epsilon = Inr (matmul (centered X) Wm, \<lparr>mean = np_mean_axis0 X, matrix = Wm\<rparr>)"
    and "is_matrix D D Wm"
    and "is_matrix N D (matmul (centered X) Wm)"
    and "\<And>i j. i < D \<Longrightarrow> j < D \<Longrightarrow> Wm ! i ! j = V ! i ! (idx ! j) * (1 / sqrt (w ! (idx ! j) + epsilon))"
    and "\<And>n j. n < N \<Longrightarrow> j < D \<Longrightarrow>
            matmul (centered X) Wm ! n ! j = (\<Sum>k<D. (X ! n ! k - column_mean X k) * Wm ! k ! j)"
proof -
  let ?s = "map (\<lambda>x. 1 / sqrt (x + epsilon)) (take_idx w idx)"
  have N: "0 < N" and D: "0 < D" using assms(2,3) by simp_all
  have idx: "length idx = D" by (simp add: idx_def np_argsort_length assms(5))
  have s: "length ?s = D" by (simp add: take_idx_def idx)
  have cm: "is_matrix N D (centered X)" using assms(1) N by (rule centered_matrix)
  show "pca_whitening eigh X epsilon = Inr (matmul (centered X) Wm, \<lparr>mean = np_mean_axis0 X, matrix = Wm\<rparr>)"
    unfolding Wm_def idx_def
    using assms(1-4,7) by (rule pca_whitening_success[where eigh = eigh and X = X])
  show wm: "is_matrix D D Wm"
    unfolding Wm_def using assms(6) idx s D by (rule whitening_matrix_shape)
  show "is_matrix N D (matmul (centered X) Wm)"
    using cm wm D by (rule matmul_matrix)
  show "Wm ! i ! j = V ! i ! (idx ! j) * (1 / sqrt (w ! (idx ! j) + epsilon))"
    if "i < D" "j < D" for i j
  proof -
    have "Wm ! i ! j = V ! i ! (idx ! j) * ?s ! j"
      unfolding Wm_def using assms(6) idx s that by (rule whitening_matrix_nth)
    then show ?thesis using that(2) idx by (simp add: take_idx_def)
  qed
  show "matmul (centered X) Wm ! n ! j = (\<Sum>k<D. (X ! n ! k - column_mean X k) * Wm ! k ! j)"
    if "n < N" "j < D" for n j
  proof -
    have "matmul (centered X) Wm ! n ! j = (\<Sum>k<D. centered X ! n ! k * Wm ! k ! j)"
      using cm wm D that by (rule matmul_nth)
    also have "\<dots> = (\<Sum>k<D. (X ! n ! k - column_mean X k) * Wm ! k ! j)"
      using assms(1) that(1) by (intro sum.cong refl) (simp add: centered_nth)
    finally show ?thesis .
  qed
qed

text \<open>
  C1 (amended). For a sample matrix of N \<ge> 2 samples by D \<ge> 2 features, and \<open>epsilon\<close>
  with every eigenvalue plus \<open>epsilon\<close> positive (so that the covariance and the scale
  factors are real numbers), \<open>pca_whitening\<close> returns
  \<open>(X_whitened, params)\<close>: \<open>params.mean\<close> is the column-wise mean of \<open>X\<close>; the
  covariance handed to \<open>eigh\<close> is the unbiased estimate of the centred samples,
  dividing by N - 1; column \<open>j\<close> of the whitening matrix is eigenvector \<open>idx ! j\<close>
  scaled by \<open>1 / sqrt (eigenvalue + epsilon)\<close>, where \<open>idx\<close> is the reversed argsort;
  \<open>X_whitened\<close> is the centred samples times the whitening matrix, N by D.
\<close>

theorem pca_whitening_computes:
  assumes "is_matrix N D X" "2 \<le> N" "2 \<le> D"
    and "eigh (covariance X) = (w, V)" "length w = D" "is_matrix D D V"
    and "\<forall>x \<in> set w. 0 < x + epsilon"
  defines "idx \<equiv> rev (np_argsort w)"
  shows "\<exists>Xw p. pca_whitening eigh X epsilon = Inr (Xw, p)
          \<and> is_matrix N D Xw \<and> length (mean p) = D \<and> is_matrix D D (matrix p)
          \<and> (\<forall>j<D. mean p ! j = column_mean X j)
          \<and> np_cov (sub_rows X (mean p)) = Inr (Matrix (covariance X))
          \<and> (\<forall>i<D. \<forall>j<D. matrix p ! i ! j = V ! i ! (idx ! j) * (1 / sqrt (w ! (idx ! j) + epsilon)))
          \<and> (\<forall>n<N. \<forall>j<D. Xw ! n ! j = (\<Sum>k<D. (X ! n ! k - mean p ! k) * matrix p ! k ! j))"
proof -
  have N: "0 < N" using assms(2) by simp
  note r = pca_whitening_result[where eigh = eigh and X = X, OF assms(1-7)]
  have m: "\<forall>j<D. np_mean_axis0 X ! j = column_mean X j"
    using mean_column_mean[OF assms(1) N] by blast
  have c: "np_cov (sub_rows X (np_mean_axis0 X)) = Inr (Matrix (covariance X))"
    using sub_rows_centered[OF assms(1) N] np_cov_centered[OF assms(1-3)] by simp
  show ?thesis
    unfolding idx_def
    using r(1) r(2) r(3) r(4) r(5) m c mean_length[OF assms(1) N]
    by simp
qed

text \<open>
  C5 (amended). For a sample matrix with at least two rows (and at least two columns,
  every eigenvalue plus \<open>epsilon\<close> positive), the column-wise mean of the whitened
  output is exactly zero.
\<close>

theorem whitened_mean_zero:
  assumes "is_matrix N D X" "2 \<le> N" "2 \<le> D"
    and "eigh (covariance X) = (w, V)" "length w = D" "is_matrix D D V"
    and "\<forall>x \<in> set w. 0 < x + epsilon"
  shows "\<exists>Xw p. pca_whitening eigh X epsilon = Inr (Xw, p)
          \<and> is_matrix N D Xw
          \<and> (\<forall>j<D. (\<Sum>n<N. Xw ! n ! j) / real N = 0)
          \<and> np_mean_axis0 Xw = replicate D 0"
proof -
  have N: "0 < N" and D: "0 < D" using assms(2,3) by simp_all
  note r = pca_whitening_result[where eigh = eigh and X = X, OF assms(1-7)]
  let ?Y = "matmul (centered X)
     (matmul (take_cols V (rev (np_argsort w)))
        (np_diag (map (\<lambda>x. 1 / sqrt (x + epsilon)) (take_idx w (rev (np_argsort w))))))"
  have zero: "(\<Sum>n<N. ?Y ! n ! j) = 0" if "j < D" for j
    using assms(1) N r(2) D that by (rule whitened_column_sum)
  have "np_mean_axis0 ?Y = replicate D 0"
  proof (rule nth_equalityI)
    show "length (np_mean_axis0 ?Y) = length (replicate D (0::real))"
      using mean_length[OF r(3) N] by simp
    fix j assume "j < length (np_mean_axis0 ?Y)"
    then have j: "j < D" using mean_length[OF r(3) N] by simp
    then show "np_mean_axis0 ?Y ! j = replicate D 0 ! j"
      using mean_nth[OF r(3) N j] zero by simp
  qed
  then show ?thesis
    using r(1) r(3) zero by simp
qed

text \<open>
  C4 (amended). For a sample matrix with 2 \<le> D < N and \<open>epsilon > 0\<close>, where \<open>eigh\<close>
  returns an eigendecomposition of the covariance, the covariance of the whitened
  output is the diagonal matrix with entries \<open>eigenvalue / (eigenvalue + epsilon)\<close>,
  the eigenvalues in the order \<open>idx\<close> the code puts them in.
\<close>

theorem whitened_covariance:
  assumes "is_matrix N D X" "2 \<le> D" "D < N" "0 < epsilon"
    and "eigh (covariance X) = (w, V)" "is_eigh (covariance X) (w, V)"
  shows "\<exists>Xw p. pca_whitening eigh X epsilon = Inr (Xw, p)
          \<and> covariance Xw =
              np_diag (map (\<lambda>x. x / (x + epsilon)) (take_idx w (rev (np_argsort w))))"
proof -
  have N: "2 \<le> N" "0 < N" and D: "0 < D" using assms(2,3) by simp_all
  have lenC: "length (covariance X) = D"
    using covariance_matrix[OF assms(1) N(2)] by (simp add: is_matrix_def)
  have V: "is_matrix D D V" and w: "length w = D"
    using assms(6) lenC by (simp_all add: is_eigh_def)
  have pos: "\<forall>x \<in> set w. 0 < x + epsilon"
    using assms(1) N(1) assms(6,4) by (rule eigenvalues_stabilised)
  note r = pca_whitening_result[where eigh = eigh and X = X, OF assms(1) N(1) assms(2) assms(5) w V pos]
  let ?idx = "rev (np_argsort w)"
  let ?Y = "matmul (centered X)
     (matmul (take_cols V ?idx) (np_diag (map (\<lambda>x. 1 / sqrt (x + epsilon)) (take_idx w ?idx))))"
  let ?R = "np_diag (map (\<lambda>x. x / (x + epsilon)) (take_idx w ?idx))"
  have idx: "length ?idx = D" by (simp add: np_argsort_length w)
  have CY: "is_matrix D D (covariance ?Y)" using r(3) N(2) by (rule covariance_matrix)
  have lenR: "length (map (\<lambda>x. x / (x + epsilon)) (take_idx w ?idx)) = D"
    by (simp add: take_idx_def np_argsort_length w)
  have R: "is_matrix D D ?R"
    using np_diag_matrix[of "map (\<lambda>x. x / (x + epsilon)) (take_idx w ?idx)"] lenR by simp
  have "covariance ?Y = ?R"
  proof (rule nth_equalityI)
    show "length (covariance ?Y) = length ?R"
      using CY R by (simp add: is_matrix_def)
    fix i assume "i < length (covariance ?Y)"
    then have i: "i < D" using CY by (simp add: is_matrix_def)
    show "covariance ?Y ! i = ?R ! i"
    proof (rule nth_equalityI)
      show "length (covariance ?Y ! i) = length (?R ! i)"
        using is_matrix_row[OF CY i] is_matrix_row[OF R i] by simp
      fix j assume "j < length (covariance ?Y ! i)"
      then have j: "j < D" using is_matrix_row[OF CY i] by simp
      have "covariance ?Y ! i ! j = (if i = j then w ! (?idx ! j) / (w ! (?idx ! j) + epsilon) else 0)"
        using assms(1) N(1) assms(6,4) i j by (rule whitened_covariance_nth)
      also have "\<dots> = ?R ! i ! j"
        using i j lenR idx by (simp add: np_diag_nth take_idx_def)
      finally show "covariance ?Y ! i ! j = ?R ! i ! j" .
    qed
  qed
  then show ?thesis using r(1) by simp
qed

lemma sample_eigh_at: "sample_eigh (covariance sample_X) = ([0, 9], [[0, 1], [1, 0]])"
  by (simp add: sample_eigh_def)

lemma sample_eigh_shape: "length [0, 9 :: real] = 2" "is_matrix 2 2 [[0, 1], [1, 0 :: real]]"
  by (simp_all add: is_matrix_def)

lemma sample_stabilised: "\<forall>x \<in> set [0, 9 :: real]. 0 < x + 16"
  by simp

lemma two_le: "(2::nat) \<le> 3" "(2::nat) \<le> 2" "(2::nat) < 3" "(0::real) < 16"
  by simp_all

theorem pca_whitening_computes_witness:
  "is_matrix 3 2 sample_X
   \<and> (\<exists>Xw p. pca_whitening sample_eigh sample_X 16 = Inr (Xw, p)
         \<and> is_matrix 3 2 Xw \<and> length (mean p) = 2 \<and> is_matrix 2 2 (matrix p)
         \<and> np_cov (sub_rows sample_X (mean p)) = Inr (Matrix (covariance sample_X)))"
proof -
  have "\<exists>Xw p. pca_whitening sample_eigh sample_X 16 = Inr (Xw, p)
          \<and> is_matrix 3 2 Xw \<and> length (mean p) = 2 \<and> is_matrix 2 2 (matrix p)
          \<and> (\<forall>j<2. mean p ! j = column_mean sample_X j)
          \<and> np_cov (sub_rows sample_X (mean p)) = Inr (Matrix (covariance sample_X))
          \<and> (\<forall>i<2. \<forall>j<2. matrix p ! i ! j
                = [[0, 1], [1, 0]] ! i ! (rev (np_argsort [0, 9]) ! j)
                  * (1 / sqrt ([0, 9] ! (rev (np_argsort [0, 9]) ! j) + 16)))
          \<and> (\<forall>n<3. \<forall>j<2. Xw ! n ! j = (\<Sum>k<2. (sample_X ! n ! k - mean p ! k) * matrix p ! k ! j))"
    by (rule pca_whitening_computes[where eigh = sample_eigh, OF sample_is_matrix two_le(1,2)
          sample_eigh_at sample_eigh_shape sample_stabilised])
  then show ?thesis using sample_is_matrix by blast
qed

text \<open>
  The claim as stated, for every N and D, fails for a single feature: \<open>np.cov\<close> then
  returns a 0-d array, which \<open>eigh\<close> rejects, and nothing is returned.
\<close>

theorem pca_whitening_domain_counterexample:
  "is_matrix 3 1 [[1], [2], [3 :: real]]
   \<and> pca_whitening sample_eigh [[1], [2], [3]] default_epsilon = Inl LinAlgError"
  by (simp add: pca_whitening_def pca_whitening_with_def np_mean_axis0_def sub_rows_def np_cov_def ncols_def
      is_matrix_def Let_def)

theorem whitened_mean_zero_witness:
  "is_matrix 3 2 sample_X
   \<and> (\<exists>Xw p. pca_whitening sample_eigh sample_X 16 = Inr (Xw, p)
         \<and> is_matrix 3 2 Xw \<and> np_mean_axis0 Xw = replicate 2 0)"
proof -
  have "\<exists>Xw p. pca_whitening sample_eigh sample_X 16 = Inr (Xw, p)
          \<and> is_matrix 3 2 Xw
          \<and> (\<forall>j<2. (\<Sum>n<3. Xw ! n ! j) / real 3 = 0)
          \<and> np_mean_axis0 Xw = replicate 2 0"
    by (rule whitened_mean_zero[where eigh = sample_eigh, OF sample_is_matrix two_le(1,2)
          sample_eigh_at sample_eigh_shape sample_stabilised])
  then show ?thesis using sample_is_matrix by blast
qed

text \<open>
  With exactly one row, which the claim admits, there is no whitened output to take
  the mean of.
\<close>

theorem single_row_counterexample:
  "is_matrix 1 2 [[1, 2 :: real]]
   \<and> pca_whitening sample_eigh [[1, 2]] default_epsilon = Inl NonFinite"
  by (simp add: pca_whitening_def pca_whitening_with_def np_mean_axis0_def sub_rows_def np_cov_def ncols_def upt_2
      is_matrix_def Let_def)

theorem whitened_covariance_witness:
  "is_matrix 3 2 sample_X
   \<and> is_eigh (covariance sample_X) (sample_eigh (covariance sample_X))
   \<and> (\<exists>Xw p. pca_whitening sample_eigh sample_X 16 = Inr (Xw, p)
         \<and> covariance Xw = np_diag [9 / 25, 0])"
proof -
  have e: "is_eigh (covariance sample_X) ([0, 9], [[0, 1], [1, 0]])"
    using sample_is_eigh by (simp add: sample_eigh_def)
  have "\<exists>Xw p. pca_whitening sample_eigh sample_X 16 = Inr (Xw, p)
          \<and> covariance Xw =
              np_diag (map (\<lambda>x. x / (x + 16)) (take_idx [0, 9] (rev (np_argsort [0, 9]))))"
    by (rule whitened_covariance[where eigh = sample_eigh, OF sample_is_matrix two_le(2,3,4)
          sample_eigh_at e])
  moreover have "map (\<lambda>x. x / (x + 16)) (take_idx [0, 9] (rev (np_argsort [0, 9]))) = [9 / 25, 0 :: real]"
    by (simp add: sample_order take_idx_def)
  ultimately show ?thesis using sample_is_matrix sample_is_eigh by simp
qed

text \<open>
  D = 1 < N = 2 satisfies the claim's condition, and the code raises \<open>LinAlgError\<close>.
\<close>

theorem single_feature_counterexample:
  "is_matrix 2 1 [[1], [2 :: real]]
   \<and> pca_whitening sample_eigh [[1], [2]] 1 = Inl LinAlgError"
  by (simp add: pca_whitening_def pca_whitening_with_def np_mean_axis0_def sub_rows_def np_cov_def ncols_def
      is_matrix_def Let_def)

section \<open>Whitening an image\<close>

lemma reshape_rows_matrix:
  "is_image H W C img \<Longrightarrow> is_matrix (H * W) C (reshape_rows img)"
proof (induction img arbitrary: H)
  case Nil
  then show ?case by (simp add: is_image_def is_matrix_def reshape_rows_def)
next
  case (Cons row img)
  then obtain H' where H: "H = Suc H'" by (cases H) (auto simp: is_image_def)
  have "is_image H' W C img" using Cons.prems H by (simp add: is_image_def)
  then have "is_matrix (H' * W) C (reshape_rows img)" by (rule Cons.IH)
  moreover have "is_matrix W C row" using Cons.prems by (simp add: is_image_def)
  ultimately show ?case by (auto simp: H is_matrix_def reshape_rows_def)
qed

lemma concat_chunks:
  "H * W \<le> length X \<Longrightarrow> concat (map (\<lambda>h. take W (drop (h * W) X)) [0..<H]) = take (H * W) X"
proof (induction H)
  case 0
  then show ?case by simp
next
  case (Suc H)
  then have "concat (map (\<lambda>h. take W (drop (h * W) X)) [0..<H]) = take (H * W) X" by simp
  moreover have "take (H * W + W) X = take (H * W) X @ take W (drop (H * W) X)"
    by (rule take_add)
  ultimately show ?case by (simp add: add.commute)
qed

lemma reshape_image_shape:
  assumes "is_matrix (H * W) C X"
  shows "is_image H W C (reshape_image H W X)"
proof -
  have len: "length X = H * W" and rows: "\<forall>r \<in> set X. length r = C"
    using assms by (simp_all add: is_matrix_def)
  have "is_matrix W C (take W (drop (h * W) X))" if "h < H" for h
  proof -
    have "Suc h * W \<le> H * W" using that by (intro mult_le_mono1) simp
    then have "h * W + W \<le> length X" using len by simp
    then have "length (take W (drop (h * W) X)) = W" by simp
    moreover have "set (take W (drop (h * W) X)) \<subseteq> set X"
      using set_take_subset set_drop_subset by fast
    ultimately show ?thesis using rows by (auto simp: is_matrix_def)
  qed
  then show ?thesis by (auto simp: is_image_def reshape_image_def)
qed

lemma reshape_image_inverse:
  "is_matrix (H * W) C X \<Longrightarrow> reshape_rows (reshape_image H W X) = X"
  by (simp add: reshape_rows_def reshape_image_def concat_chunks is_matrix_def)

lemma image_dims:
  assumes "is_image H W C img" "0 < H" "0 < W"
  shows "length img = H" "ncols img = W" "ncols (concat img) = C"
proof -
  show "length img = H" using assms(1) by (simp add: is_image_def)
  obtain row rest where img: "img = row # rest"
    using assms(1,2) by (cases img) (auto simp: is_image_def)
  have row: "is_matrix W C row" using assms(1) img by (simp add: is_image_def)
  then show "ncols img = W" by (simp add: img ncols_def is_matrix_def)
  obtain px more where r: "row = px # more"
    using row assms(3) by (cases row) (auto simp: is_matrix_def)
  then have "length px = C" using row by (simp add: is_matrix_def)
  then show "ncols (concat img) = C" by (simp add: img r ncols_def)
qed

lemma whiten_image_unfold:
  assumes "is_image H W C img" "0 < H" "0 < W" "0 < C"
  shows "whiten_image eigh img epsilon =
          (case pca_whitening eigh (reshape_rows img) epsilon of
             Inl e \<Rightarrow> Inl e
           | Inr (Xw, p) \<Rightarrow>
               Inr (reshape_image H W Xw, \<lparr>image_mean = mean p, image_whitening_matrix = matrix p\<rparr>))"
  using image_dims[OF assms(1-3)] assms(4)
  by (simp add: whiten_image_def whiten_image_with_def pca_whitening_def pca_whitening_with_def Let_def
      split: sum.splits cov_result.splits prod.splits)

text \<open>
  C2. For an H-by-W-by-C image (all three positive) and every \<open>epsilon\<close>,
  \<open>whiten_image\<close> gives exactly the result of \<open>pca_whitening\<close> on the image reshaped to
  an (H*W)-by-C matrix: the same error, or the whitened matrix reshaped back to
  H-by-W-by-C with the same mean vector and whitening matrix. Reshaping back inverts the
  reshape on every (H*W)-by-C matrix.
\<close>

theorem whiten_image_is_pca_whitening:
  assumes "is_image H W C img" "0 < H" "0 < W" "0 < C"
  shows "is_matrix (H * W) C (reshape_rows img)
       \<and> whiten_image eigh img epsilon =
          (case pca_whitening eigh (reshape_rows img) epsilon of
             Inl e \<Rightarrow> Inl e
           | Inr (Xw, p) \<Rightarrow>
               Inr (reshape_image H W Xw, \<lparr>image_mean = mean p, image_whitening_matrix = matrix p\<rparr>))
       \<and> (\<forall>Xw. is_matrix (H * W) C Xw \<longrightarrow>
              is_image H W C (reshape_image H W Xw) \<and> reshape_rows (reshape_image H W Xw) = Xw)"
  using reshape_rows_matrix[OF assms(1)] whiten_image_unfold[OF assms]
    reshape_image_shape reshape_image_inverse
  by blast

lemma sample_img_shape: "is_image 1 3 2 sample_img"
  by (simp add: is_image_def is_matrix_def sample_img_def)

lemma sample_img_rows: "reshape_rows sample_img = sample_X"
  by (simp add: reshape_rows_def sample_img_def sample_X_def)

lemma pos_dims: "(0::nat) < 1" "(0::nat) < 3" "(0::nat) < 2"
  by simp_all

theorem whiten_image_is_pca_whitening_witness:
  "is_image 1 3 2 sample_img
   \<and> whiten_image sample_eigh sample_img 16 =
       Inr ([[[3/5, 0], [-3/5, 0], [0, 0]]],
            \<lparr>image_mean = [0, 0], image_whitening_matrix = [[1/5, 0], [0, 1/4]]\<rparr>)"
proof -
  have "whiten_image sample_eigh sample_img 16 =
          (case pca_whitening sample_eigh (reshape_rows sample_img) 16 of
             Inl e \<Rightarrow> Inl e
           | Inr (Xw, p) \<Rightarrow>
               Inr (reshape_image 1 3 Xw, \<lparr>image_mean = mean p, image_whitening_matrix = matrix p\<rparr>))"
    using whiten_image_is_pca_whitening[OF sample_img_shape pos_dims, of sample_eigh 16]
    by (rule conjunct2[THEN conjunct1])
  then show ?thesis
    using sample_img_shape by (simp add: sample_img_rows sample_run reshape_image_def)
qed

lemma reshape_image_replicate:
  "reshape_image H W (replicate (H * W) z) = replicate H (replicate W z)"
proof -
  have "take W (drop (h * W) (replicate (H * W) z)) = replicate W z" if "h < H" for h
  proof -
    have "Suc h * W \<le> H * W" using that by (intro mult_le_mono1) simp
    then have "W \<le> H * W - h * W" by simp
    then show ?thesis by (simp add: min_def)
  qed
  then have "map (\<lambda>h. take W (drop (h * W) (replicate (H * W) z))) [0..<H]
           = map (\<lambda>h. replicate W z) [0..<H]"
    by (intro map_cong refl) simp
  then show ?thesis by (simp add: reshape_image_def map_replicate_const)
qed

lemma constant_rows_centered:
  assumes "is_matrix N D X" "0 < N" "\<forall>r \<in> set X. r = px" "n < N" "j < D"
  shows "centered X ! n ! j = 0"
proof -
  have len: "length X = N" using assms(1) by (simp add: is_matrix_def)
  have "(\<Sum>r\<leftarrow>X. r ! j) = (\<Sum>r\<leftarrow>X. px ! j)"
    using assms(3) by (intro arg_cong[where f = sum_list] map_cong refl) simp
  then have "column_mean X j = px ! j"
    using assms(2) by (simp add: column_mean_def sum_list_triv len)
  moreover have "X ! n = px" using assms(3,4) len by simp
  ultimately show ?thesis using assms by (simp add: centered_nth)
qed

lemma constant_rows_whiten_zero:
  assumes "is_matrix N D X" "0 < N" "\<forall>r \<in> set X. r = px" "is_matrix D D Wm" "0 < D"
  shows "matmul (centered X) Wm = replicate N (replicate D 0)"
proof -
  have cm: "is_matrix N D (centered X)" using assms(1,2) by (rule centered_matrix)
  have Y: "is_matrix N D (matmul (centered X) Wm)" using cm assms(4,5) by (rule matmul_matrix)
  show ?thesis
  proof (rule nth_equalityI)
    show "length (matmul (centered X) Wm) = length (replicate N (replicate D (0::real)))"
      using Y by (simp add: is_matrix_def)
    fix n assume "n < length (matmul (centered X) Wm)"
    then have n: "n < N" using Y by (simp add: is_matrix_def)
    show "matmul (centered X) Wm ! n = replicate N (replicate D 0) ! n"
    proof (rule nth_equalityI)
      show "length (matmul (centered X) Wm ! n) = length (replicate N (replicate D (0::real)) ! n)"
        using is_matrix_row[OF Y n] n by simp
      fix j assume "j < length (matmul (centered X) Wm ! n)"
      then have j: "j < D" using is_matrix_row[OF Y n] by simp
      have "matmul (centered X) Wm ! n ! j = (\<Sum>k<D. centered X ! n ! k * Wm ! k ! j)"
        using cm assms(4,5) n j by (rule matmul_nth)
      also have "\<dots> = (\<Sum>k<D. 0)"
        using constant_rows_centered[OF assms(1-3) n] by (intro sum.cong refl) simp
      finally show "matmul (centered X) Wm ! n ! j = replicate N (replicate D 0) ! n ! j"
        using n j by simp
    qed
  qed
qed

lemma default_epsilon_pos: "0 < default_epsilon"
  by (simp add: default_epsilon_def)

section \<open>The eigenpairs in the whitening matrix\<close>

lemma pca_whitening_with_success:
  assumes "is_matrix N D X" "2 \<le> N" "2 \<le> D"
    and "eigh (covariance X) = (w, V)"
    and "\<forall>x \<in> set w. 0 < x + epsilon"
    and "set (argsort w) \<subseteq> {..<length w}"
  shows "pca_whitening_with argsort eigh X epsilon =
         Inr (matmul (centered X)
                (matmul (take_cols V (rev (argsort w)))
                   (np_diag (map (\<lambda>x. 1 / sqrt (x + epsilon)) (take_idx w (rev (argsort w)))))),
              \<lparr>mean = np_mean_axis0 X,
               matrix = matmul (take_cols V (rev (argsort w)))
                   (np_diag (map (\<lambda>x. 1 / sqrt (x + epsilon)) (take_idx w (rev (argsort w)))))\<rparr>)"
proof -
  have N: "0 < N" using assms(2) by simp
  have c: "sub_rows X (np_mean_axis0 X) = centered X"
    using assms(1) N by (rule sub_rows_centered)
  have cov: "np_cov (centered X) = Inr (Matrix (covariance X))"
    using assms(1-3) by (rule np_cov_centered)
  have "set (take_idx w (rev (argsort w))) \<subseteq> set w"
    by (rule take_idx_subset) (simp add: assms(6))
  then have pos: "\<not> (\<exists>x \<in> set (take_idx w (rev (argsort w))). x + epsilon \<le> 0)"
    using assms(5) by fastforce
  show ?thesis
    unfolding pca_whitening_with_def Let_def c cov
    using pos by (simp add: assms(4))
qed

lemma whiten_image_with_unfold:
  assumes "is_image H W C img" "0 < H" "0 < W" "0 < C"
  shows "whiten_image_with argsort eigh img epsilon =
          (case pca_whitening_with argsort eigh (reshape_rows img) epsilon of
             Inl e \<Rightarrow> Inl e
           | Inr (Xw, p) \<Rightarrow>
               Inr (reshape_image H W Xw, \<lparr>image_mean = mean p, image_whitening_matrix = matrix p\<rparr>))"
  using image_dims[OF assms(1-3)] assms(4)
  by (simp add: whiten_image_with_def pca_whitening_with_def Let_def
      split: sum.splits cov_result.splits prod.splits)

lemma tied_shapes:
  "is_matrix 4 2 tied_X" "(2::nat) \<le> 4" "(2::nat) \<le> 2"
  "tied_eigh (covariance tied_X) = ([2 / 3, 2 / 3], [[1, 0], [0, 1]])"
  "length [2 / 3, 2 / 3 :: real] = 2" "is_matrix 2 2 [[1, 0], [0, 1 :: real]]"
  "\<forall>x \<in> set [2 / 3, 2 / 3 :: real]. 0 < x + 1 / 3"
  by (simp_all add: is_matrix_def tied_X_def tied_eigh_def)

text \<open>
  C3 (amended). Both functions reorder the eigenpairs by
  \<open>idx = np.argsort(eigenvalues)[::-1]\<close> before the whitening matrix is assembled: for
  every \<open>argsort\<close> that returns a permutation sorting its argument ascending, \<open>idx\<close> is a
  permutation of the indices, column \<open>j\<close> of the whitening matrix that \<open>pca_whitening\<close>
  returns is eigenvector \<open>idx ! j\<close> scaled by its eigenvalue, the eigenvalues in the order
  \<open>idx\<close> are descending, and \<open>whiten_image\<close> returns the same whitening matrix. Ties are
  not broken by the smaller original index: if \<open>argsort\<close> keeps equal keys in their
  original order, then of two eigenpairs with equal eigenvalues the one with the larger
  original index comes first.
\<close>

theorem eigenpairs_reordered:
  assumes "is_matrix N D X" "2 \<le> N" "2 \<le> D"
    and "eigh (covariance X) = (w, V)" "length w = D" "is_matrix D D V"
    and "\<forall>x \<in> set w. 0 < x + epsilon"
    and "sorts_ascending w (argsort w)"
  defines "idx \<equiv> rev (argsort w)"
  shows "\<exists>Xw p. pca_whitening_with argsort eigh X epsilon = Inr (Xw, p)
          \<and> distinct idx \<and> set idx = {..<D}
          \<and> (\<forall>i<D. \<forall>j<D. matrix p ! i ! j = V ! i ! (idx ! j) * (1 / sqrt (w ! (idx ! j) + epsilon)))
          \<and> (\<forall>a b. a < b \<and> b < D \<longrightarrow> w ! (idx ! b) \<le> w ! (idx ! a))
          \<and> (keeps_ties w (argsort w) \<longrightarrow>
                (\<forall>a b. a < b \<and> b < D \<and> w ! (idx ! a) = w ! (idx ! b) \<longrightarrow> idx ! b < idx ! a))
          \<and> (\<forall>img H W. is_image H W D img \<and> 0 < H \<and> 0 < W \<and> reshape_rows img = X \<longrightarrow>
                (\<exists>whitened q. whiten_image_with argsort eigh img epsilon = Inr (whitened, q)
                   \<and> image_whitening_matrix q = matrix p))"
proof -
  let ?s = "argsort w"
  let ?scale = "map (\<lambda>x. 1 / sqrt (x + epsilon)) (take_idx w idx)"
  let ?Wm = "matmul (take_cols V idx) (np_diag ?scale)"
  have D: "0 < D" using assms(3) by simp
  have len: "length ?s = D" using sorts_ascending_length[OF assms(8)] assms(5) by simp
  have set_s: "set ?s = {..<D}" and dist: "distinct ?s" and asc: "sorted (map (\<lambda>i. w ! i) ?s)"
    using assms(8) assms(5) by (simp_all add: sorts_ascending_def)
  have idx_len: "length idx = D" by (simp add: idx_def len)
  have nth_idx: "idx ! a = ?s ! (D - Suc a)" if "a < D" for a
    using that len by (simp add: idx_def rev_nth)
  have run: "pca_whitening_with argsort eigh X epsilon
           = Inr (matmul (centered X) ?Wm, \<lparr>mean = np_mean_axis0 X, matrix = ?Wm\<rparr>)"
    unfolding idx_def
    using assms(1-4,7) by (rule pca_whitening_with_success) (simp add: set_s assms(5))
  have cols: "?Wm ! i ! j = V ! i ! (idx ! j) * (1 / sqrt (w ! (idx ! j) + epsilon))"
    if "i < D" "j < D" for i j
  proof -
    have "length ?scale = D" by (simp add: take_idx_def idx_len)
    then have "?Wm ! i ! j = V ! i ! (idx ! j) * ?scale ! j"
      using assms(6) idx_len that by (intro whitening_matrix_nth) simp_all
    then show ?thesis using that(2) idx_len by (simp add: take_idx_def)
  qed
  have desc: "w ! (idx ! b) \<le> w ! (idx ! a)" if "a < b" "b < D" for a b
  proof -
    have "map (\<lambda>i. w ! i) ?s ! (D - Suc b) \<le> map (\<lambda>i. w ! i) ?s ! (D - Suc a)"
      using asc that len by (intro sorted_nth_mono) simp_all
    then show ?thesis using that len by (simp add: nth_idx)
  qed
  have ties: "idx ! b < idx ! a"
    if "keeps_ties w ?s" "a < b" "b < D" "w ! (idx ! a) = w ! (idx ! b)" for a b
  proof -
    have "D - Suc b < D - Suc a" "D - Suc a < length ?s"
      using that(2,3) len by simp_all
    moreover have "w ! (?s ! (D - Suc b)) = w ! (?s ! (D - Suc a))"
      using that by (simp add: nth_idx)
    ultimately have "?s ! (D - Suc b) < ?s ! (D - Suc a)"
      using that(1) unfolding keeps_ties_def by blast
    then show ?thesis using that by (simp add: nth_idx)
  qed
  have image: "\<exists>whitened q. whiten_image_with argsort eigh img epsilon = Inr (whitened, q)
                   \<and> image_whitening_matrix q = ?Wm"
    if "is_image H W D img" "0 < H" "0 < W" "reshape_rows img = X" for img H W
    using whiten_image_with_unfold[OF that(1-3) D, of argsort eigh epsilon] run that(4) by simp
  show ?thesis
    using run cols desc ties image dist set_s by (auto simp: idx_def)
qed

theorem eigenpairs_reordered_witness:
  "sorts_ascending [2 / 3, 2 / 3] (np_argsort [2 / 3, 2 / 3])
   \<and> keeps_ties [2 / 3, 2 / 3] (np_argsort [2 / 3, 2 / 3])
   \<and> rev (np_argsort [2 / 3, 2 / 3]) = [1, 0]
   \<and> (\<exists>Xw p. pca_whitening tied_eigh tied_X (1 / 3) = Inr (Xw, p)
          \<and> matrix p ! 0 ! 0 = 0 \<and> matrix p ! 1 ! 0 = 1
          \<and> rev (np_argsort [2 / 3, 2 / 3]) ! 1 < rev (np_argsort [2 / 3, 2 / 3]) ! 0
          \<and> (\<exists>whitened q. whiten_image tied_eigh tied_img (1 / 3) = Inr (whitened, q)
                 \<and> image_whitening_matrix q ! 0 ! 0 = 0 \<and> image_whitening_matrix q ! 1 ! 0 = 1))"
proof -
  let ?w = "[2 / 3, 2 / 3 :: real]"
  let ?V = "[[1, 0], [0, 1 :: real]]"
  let ?idx = "rev (np_argsort ?w)"
  have idx: "?idx = [1, 0]" by (simp add: tied_order)
  have stable: "keeps_ties ?w (np_argsort ?w)" by (rule np_argsort_keeps_ties)
  have sorts: "sorts_ascending ?w (np_argsort ?w)" by (rule np_argsort_sorts)
  have img: "is_image 2 2 2 tied_img \<and> (0::nat) < 2 \<and> (0::nat) < 2 \<and> reshape_rows tied_img = tied_X"
    by (simp add: is_image_def is_matrix_def tied_img_def tied_X_def reshape_rows_def)
  note T = eigenpairs_reordered[where argsort = np_argsort and eigh = tied_eigh,
        OF tied_shapes np_argsort_sorts]
  have "\<exists>Xw p. pca_whitening tied_eigh tied_X (1 / 3) = Inr (Xw, p)
          \<and> matrix p ! 0 ! 0 = 0 \<and> matrix p ! 1 ! 0 = 1 \<and> ?idx ! 1 < ?idx ! 0
          \<and> (\<exists>whitened q. whiten_image tied_eigh tied_img (1 / 3) = Inr (whitened, q)
                 \<and> image_whitening_matrix q ! 0 ! 0 = 0 \<and> image_whitening_matrix q ! 1 ! 0 = 1)"
    using T
  proof (elim exE conjE)
    fix Xw p
    assume run: "pca_whitening_with np_argsort tied_eigh tied_X (1 / 3) = Inr (Xw, p)"
      and cols: "\<forall>i<2. \<forall>j<2. matrix p ! i ! j
                 = ?V ! i ! (?idx ! j) * (1 / sqrt (?w ! (?idx ! j) + 1 / 3))"
      and ties: "keeps_ties ?w (np_argsort ?w) \<longrightarrow>
                (\<forall>a b. a < b \<and> b < 2 \<and> ?w ! (?idx ! a) = ?w ! (?idx ! b) \<longrightarrow> ?idx ! b < ?idx ! a)"
      and image: "\<forall>img H W. is_image H W 2 img \<and> 0 < H \<and> 0 < W \<and> reshape_rows img = tied_X \<longrightarrow>
                (\<exists>whitened q. whiten_image_with np_argsort tied_eigh img (1 / 3) = Inr (whitened, q)
                   \<and> image_whitening_matrix q = matrix p)"
    have c: "matrix p ! i ! 0 = ?V ! i ! (?idx ! 0) * (1 / sqrt (?w ! (?idx ! 0) + 1 / 3))"
      if "i < 2" for i
      using cols that by (elim allE[of _ i] impE allE[of _ 0]) simp_all
    have m00: "matrix p ! 0 ! 0 = 0" using c[of 0] by (simp add: idx)
    have m10: "matrix p ! 1 ! 0 = 1" using c[of 1] by (simp add: idx)
    have "\<forall>a b. a < b \<and> b < 2 \<and> ?w ! (?idx ! a) = ?w ! (?idx ! b) \<longrightarrow> ?idx ! b < ?idx ! a"
      using ties stable by (rule mp)
    then have "(0::nat) < 1 \<and> (1::nat) < 2 \<and> ?w ! (?idx ! 0) = ?w ! (?idx ! 1) \<longrightarrow> ?idx ! 1 < ?idx ! 0"
      by (elim allE[of _ "0::nat"] allE[of _ "1::nat"])
    moreover have "?w ! (?idx ! 0) = ?w ! (?idx ! 1)" by (simp add: idx)
    ultimately have t: "?idx ! 1 < ?idx ! 0" by simp
    have "is_image 2 2 2 tied_img \<and> (0::nat) < 2 \<and> (0::nat) < 2 \<and> reshape_rows tied_img = tied_X \<longrightarrow>
                (\<exists>whitened q. whiten_image_with np_argsort tied_eigh tied_img (1 / 3) = Inr (whitened, q)
                   \<and> image_whitening_matrix q = matrix p)"
      using image by (elim allE[of _ tied_img] allE[of _ "2::nat"])
    then obtain whitened q
      where "whiten_image_with np_argsort tied_eigh tied_img (1 / 3) = Inr (whitened, q)"
        and "image_whitening_matrix q = matrix p"
      using img by (elim impE exE conjE) simp_all
    then have i: "\<exists>whitened q. whiten_image tied_eigh tied_img (1 / 3) = Inr (whitened, q)
                 \<and> image_whitening_matrix q ! 0 ! 0 = 0 \<and> image_whitening_matrix q ! 1 ! 0 = 1"
      using m00 m10 by (simp add: whiten_image_def)
    show ?thesis
      using run m00 m10 t i by (intro exI[of _ Xw] exI[of _ p]) (simp add: pca_whitening_def)
  qed
  then show ?thesis using sorts stable idx by (intro conjI)
qed

text \<open>
  Two equal eigenvalues: \<open>idx\<close> is \<open>[1, 0]\<close>, so the eigenpair with original index 1 comes
  first, not the one with the smaller index 0, and the columns of the whitening matrix
  are the eigenvectors in swapped order.
\<close>

theorem eigenpair_tie_counterexample:
  "is_eigh (covariance tied_X) (tied_eigh (covariance tied_X))
   \<and> rev (np_argsort (fst (tied_eigh (covariance tied_X)))) = [1, 0]
   \<and> pca_whitening tied_eigh tied_X (1 / 3) =
       Inr ([[0, 1], [0, -1], [1, 0], [-1, 0]], \<lparr>mean = [0, 0], matrix = [[0, 1], [1, 0]]\<rparr>)"
  using tied_is_eigh
  by (simp add: pca_whitening_def pca_whitening_with_def tied_X_def tied_eigh_def np_mean_axis0_def sub_rows_def
      np_cov_def ncols_def upt_2 tied_order take_idx_def take_cols_def matmul_def np_diag_def
      column_def dot_def Let_def)

section \<open>Whitening a constant image\<close>

lemma foldl_plus: "foldl (\<lambda>s x. s + x) a xs = a + sum_list xs" for a :: real
  by (induction xs arbitrary: a) simp_all

lemma fl_sum_exact: "fl_sum (\<lambda>x. x) xs = sum_list xs"
  by (simp add: fl_sum_def foldl_plus)

lemma np_mean_axis0_exact: "np_mean_axis0_fl (\<lambda>x. x) X = np_mean_axis0 X"
  by (simp add: np_mean_axis0_fl_def np_mean_axis0_def fl_sum_exact)

lemma sub_rows_exact: "sub_rows_fl (\<lambda>x. x) X m = sub_rows X m"
  by (simp add: sub_rows_fl_def sub_rows_def)

lemma np_cov_exact: "np_cov_fl (\<lambda>x. x) X = np_cov X"
  unfolding np_cov_fl_def np_cov_def fl_sum_exact np_mean_axis0_exact sub_rows_exact by (rule refl)

lemma matmul_exact: "matmul_fl (\<lambda>x. x) A B = matmul A B"
  by (simp add: matmul_fl_def matmul_def dot_fl_def dot_def fl_sum_exact)

text \<open>With no rounding, the rounded \<open>whiten_image\<close> is the exact one.\<close>

lemma whiten_image_exact:
  "whiten_image_fl (\<lambda>x. x) argsort eigh img epsilon = whiten_image_with argsort eigh img epsilon"
  unfolding whiten_image_fl_def whiten_image_with_def np_mean_axis0_exact sub_rows_exact
    np_cov_exact matmul_exact by (rule refl)


lemma constant_rows: "\<forall>r \<in> set X. r = px \<Longrightarrow> X = replicate (length X) px"
  by (induction X) simp_all

lemma ncols_replicate_rows: "0 < n \<Longrightarrow> ncols (replicate n r) = length r"
  by (cases n) (simp_all add: ncols_def)











lemma binade_numeral:
  "binade (numeral k) x =
     (if 2 \<le> x then binade (pred_numeral k) (x / 2) + 1
      else if x < 1 then binade (pred_numeral k) (2 * x) - 1 else 0)"
  by (simp add: numeral_eq_Suc)

lemmas round_f64_eval =
  round_f64_def binade_numeral round_half_even_def Let_def power_int_def power_one_over


lemma round_f64_samples:
  "round_f64 5 = 5" "round_f64 7 = 7" "round_f64 10 = 10" "round_f64 14 = 14"
  "round_f64 (1 / 10) = tenth" "round_f64 tenth = tenth"
  "round_f64 (tenth + tenth) = 2 * tenth"
  "round_f64 (2 * tenth + tenth) = 5404319552844596 / 18014398509481984"
  "round_f64 (5404319552844596 / 18014398509481984 / 3) = tenth + 1 / 72057594037927936"
  "round_f64 (1351079888211149 / 13510798882111488) = tenth + 1 / 72057594037927936"
  "round_f64 (- (1 / 72057594037927936)) = - (1 / 72057594037927936)"
  "round_f64 (tenth - (tenth + 1 / 72057594037927936)) = - (1 / 72057594037927936)"
  "0 < round_f64 default_epsilon"
  by (simp_all add: round_f64_eval tenth_def default_epsilon_def)





text \<open>
  In exact arithmetic the mean of equal rows is the row, so the condition on the means
  holds for every all-constant image.
\<close>

lemma constant_rows_exact_mean:
  assumes "is_matrix N D X" "0 < N" "\<forall>r \<in> set X. r = px"
  shows "np_mean_axis0_fl (\<lambda>x. x) X = px"
proof -
  have "X = replicate (length X) px" using assms(3) by (rule constant_rows)
  then have X: "X = replicate N px" using assms(1) by (simp add: is_matrix_def)
  have "px \<in> set X" using assms(2) by (subst X) simp
  then have px: "length px = D" using assms(1) by (simp add: is_matrix_def)
  have "np_mean_axis0 (replicate N px) = map (\<lambda>j. px ! j) [0..<D]"
    unfolding np_mean_axis0_def ncols_replicate_rows[OF assms(2)] px
    using assms(2) by (intro map_cong refl) (simp add: sum_list_replicate)
  then show ?thesis by (simp add: np_mean_axis0_exact X[symmetric] px[symmetric] map_nth)
qed

text \<open>
  So in exact arithmetic, with \<open>eigh\<close> an eigendecomposition of the covariance, every
  all-constant image with at least two pixels and two channels is whitened to zero.
\<close>

lemma constant_image_exact_arithmetic:
  assumes "is_image H W C img" "2 \<le> H * W" "2 \<le> C"
    and "\<forall>row \<in> set img. \<forall>q \<in> set row. q = px"
    and "eigh (covariance (reshape_rows img)) = (w, V)"
    and "is_eigh (covariance (reshape_rows img)) (w, V)"
  shows "\<exists>p. whiten_image eigh img default_epsilon
              = Inr (replicate H (replicate W (replicate C 0)), p)"
proof -
  let ?X = "reshape_rows img"
  let ?N = "H * W"
  have H: "0 < H" and W: "0 < W" and C: "0 < C" and N: "0 < ?N"
    using assms(2,3) by (auto intro: Nat.gr0I)
  have X: "is_matrix ?N C ?X" using assms(1) by (rule reshape_rows_matrix)
  have const: "\<forall>r \<in> set ?X. r = px"
    using assms(4) by (auto simp: reshape_rows_def)
  have lenC: "length (covariance ?X) = C"
    using covariance_matrix[OF X N] by (simp add: is_matrix_def)
  have V: "is_matrix C C V" and w: "length w = C"
    using assms(6) lenC by (simp_all add: is_eigh_def)
  have pos: "\<forall>x \<in> set w. 0 < x + default_epsilon"
    using X assms(2) assms(6) default_epsilon_pos by (rule eigenvalues_stabilised)
  note r = pca_whitening_result[where eigh = eigh and X = ?X, OF X assms(2,3) assms(5) w V pos]
  have "matmul (centered ?X)
          (matmul (take_cols V (rev (np_argsort w)))
             (np_diag (map (\<lambda>x. 1 / sqrt (x + default_epsilon)) (take_idx w (rev (np_argsort w))))))
        = replicate ?N (replicate C 0)"
    using X N const r(2) C by (rule constant_rows_whiten_zero)
  then show ?thesis
    using whiten_image_unfold[OF assms(1) H W C, of eigh default_epsilon] r(1)
    by (simp add: reshape_image_replicate)
qed

text \<open>
  In float64 it can fail: the mean of three pixels holding the float nearest to 0.1 is
  the next float above it (0.1 + 0.1 is exact, adding 0.1 and dividing by 3 round up),
  so the centred data is \<open>- 2^-56\<close> in every entry, not zero.
\<close>

lemma tenths_image_not_centred:
  "is_image 1 3 2 tenths_img"
  "np_mean_axis0_fl round_f64 (reshape_rows tenths_img)
     = [tenth + 1 / 72057594037927936, tenth + 1 / 72057594037927936]"
  "sub_rows_fl round_f64 (reshape_rows tenths_img) (np_mean_axis0_fl round_f64 (reshape_rows tenths_img))
     = replicate 3 [- (1 / 72057594037927936), - (1 / 72057594037927936)]"
proof -
  show "is_image 1 3 2 tenths_img"
    by (simp add: is_image_def is_matrix_def tenths_img_def)
  have sum: "fl_sum round_f64 [tenth, tenth, tenth] = 5404319552844596 / 18014398509481984"
    by (simp only: fl_sum_def foldl.simps add_0 round_f64_samples)
  show mean: "np_mean_axis0_fl round_f64 (reshape_rows tenths_img)
     = [tenth + 1 / 72057594037927936, tenth + 1 / 72057594037927936]"
    by (simp add: np_mean_axis0_fl_def reshape_rows_def tenths_img_def ncols_def upt_2 sum
        round_f64_samples)
  show "sub_rows_fl round_f64 (reshape_rows tenths_img)
          (np_mean_axis0_fl round_f64 (reshape_rows tenths_img))
     = replicate 3 [- (1 / 72057594037927936), - (1 / 72057594037927936)]"
    unfolding mean
    by (simp add: sub_rows_fl_def reshape_rows_def tenths_img_def round_f64_samples numeral_3_eq_3)
qed


section \<open>Properties of the loaders\<close>

lemma digit_char_inj: "a < 10 \<Longrightarrow> b < 10 \<Longrightarrow> digit_char a = digit_char b \<Longrightarrow> a = b"
proof -
  assume a: "a < 10" and b: "b < 10" and e: "digit_char a = digit_char b"
  have d: "distinct ''0123456789''" by simp
  have "length ''0123456789'' = 10" by simp
  then show "a = b"
    using nth_eq_iff_index_eq[OF d, of a b] a b e by (simp add: digit_char_def)
qed

lemma str_of_nat_nonempty: "str_of_nat n \<noteq> []"
  by (subst str_of_nat.simps) simp

lemma str_of_nat_inj: "str_of_nat n = str_of_nat m \<Longrightarrow> n = m"
proof (induction n arbitrary: m rule: str_of_nat.induct)
  case (1 n)
  show ?case
  proof (cases "n < 10")
    case True
    then have n: "str_of_nat n = [digit_char n]" by (subst str_of_nat.simps) simp
    show ?thesis
    proof (cases "m < 10")
      case mlt: True
      then have "str_of_nat m = [digit_char m]" by (subst str_of_nat.simps) simp
      then show ?thesis using n "1.prems" True mlt digit_char_inj by simp
    next
      case False
      then have "str_of_nat m = str_of_nat (m div 10) @ [digit_char (m mod 10)]"
        by (subst str_of_nat.simps) simp
      then show ?thesis using n "1.prems" str_of_nat_nonempty[of "m div 10"] by simp
    qed
  next
    case False
    then have n: "str_of_nat n = str_of_nat (n div 10) @ [digit_char (n mod 10)]"
      by (subst str_of_nat.simps) simp
    show ?thesis
    proof (cases "m < 10")
      case True
      then have "str_of_nat m = [digit_char m]" by (subst str_of_nat.simps) simp
      then show ?thesis using n "1.prems" str_of_nat_nonempty[of "n div 10"] by simp
    next
      case mge: False
      then have "str_of_nat m = str_of_nat (m div 10) @ [digit_char (m mod 10)]"
        by (subst str_of_nat.simps) simp
      then have "str_of_nat (n div 10) = str_of_nat (m div 10)"
        and "digit_char (n mod 10) = digit_char (m mod 10)"
        using n "1.prems" by simp_all
      then have "n div 10 = m div 10" and "n mod 10 = m mod 10"
        using "1.IH"[OF False] digit_char_inj[of "n mod 10" "m mod 10"] by simp_all
      then show ?thesis by (metis div_mult_mod_eq)
    qed
  qed
qed

lemma run_dir_inj: "run_dir i = run_dir j \<Longrightarrow> i = j"
  by (simp add: run_dir_def str_of_nat_inj)

lemma run_dir_distinct: "distinct runs \<Longrightarrow> distinct (map run_dir runs)"
  by (simp add: distinct_map inj_on_def run_dir_inj)

lemma update_fresh: "k \<notin> fst ` set al \<Longrightarrow> AList.update k v al = al @ [(k, v)]"
  by (induction al) auto

lemma take_drop_nth:
  "i + n \<le> length xs \<Longrightarrow> take n (drop i xs) = map (\<lambda>c. xs ! (i + c)) [0..<n]"
  by (rule nth_equalityI) simp_all

lemma block_index_bound:
  fixes a b A B C :: nat
  assumes "a < A" "b < B"
  shows "(a * B + b) * C + C \<le> A * B * C"
proof -
  have "a * B + b + 1 \<le> Suc a * B" using assms(2) by simp
  also have "\<dots> \<le> A * B" using assms(1) by (intro mult_le_mono1) simp
  finally have "(a * B + b + 1) * C \<le> A * B * C" by (rule mult_le_mono1)
  then show ?thesis by (simp add: algebra_simps)
qed

lemma reshape3_block:
  assumes "length flat = A * B * C"
  shows "reshape3 A B C flat = Inr (block_of A B C flat)"
proof -
  have "take C (drop ((a * B + b) * C) flat) = map (\<lambda>c. flat ! ((a * B + b) * C + c)) [0..<C]"
    if "a < A" "b < B" for a b
    using block_index_bound[OF that, of C] assms by (intro take_drop_nth) simp
  then have "map (\<lambda>a. map (\<lambda>b. take C (drop ((a * B + b) * C) flat)) [0..<B]) [0..<A]
           = block_of A B C flat"
    unfolding block_of_def by (intro map_cong refl) simp
  then show ?thesis using assms by (simp add: reshape3_def)
qed

lemma reshape3_Inr: "reshape3 A B C flat = Inr img \<Longrightarrow> length flat = A * B * C \<and> img = block_of A B C flat"
  using reshape3_block[of flat A B C] by (auto simp: reshape3_def split: if_splits)

lemma block_of_image: "is_image A B C (block_of A B C flat)"
  by (auto simp: is_image_def is_matrix_def block_of_def)

lemma block_of_nth:
  "a < A \<Longrightarrow> b < B \<Longrightarrow> c < C \<Longrightarrow> block_of A B C flat ! a ! b ! c = flat ! ((a * B + b) * C + c)"
  by (simp add: block_of_def)

lemma concat_uniform_length:
  "\<forall>xs \<in> set xss. length xs = k \<Longrightarrow> length (concat xss) = length xss * k"
  by (induction xss) simp_all

lemma concat_uniform_nth:
  "\<forall>xs \<in> set xss. length xs = k \<Longrightarrow> r < length xss \<Longrightarrow> c < k \<Longrightarrow>
   concat xss ! (r * k + c) = xss ! r ! c"
proof (induction xss arbitrary: r)
  case Nil
  then show ?case by simp
next
  case (Cons xs xss)
  show ?case
  proof (cases r)
    case 0
    then show ?thesis using Cons.prems by (simp add: nth_append)
  next
    case (Suc r')
    have "concat (xs # xss) ! (r * k + c) = concat xss ! (r' * k + c)"
      using Cons.prems(1) Suc by (simp add: nth_append)
    also have "\<dots> = xss ! r' ! c"
      using Cons.prems Suc by (intro Cons.IH) simp_all
    finally show ?thesis by (simp add: Suc)
  qed
qed

lemma np_array_float_ok:
  assumes "\<forall>r \<in> set rows. length r = k \<and> (\<forall>t \<in> set r. float_of t \<noteq> None)"
  shows "np_array_float float_of rows = Inr (map (map (\<lambda>t. the (float_of t))) rows)"
proof -
  have "ncols rows = k" if "rows \<noteq> []"
    using that assms by (cases rows) (simp_all add: ncols_def)
  then have rect: "\<not> (\<exists>r \<in> set rows. length r \<noteq> ncols rows)"
    using assms by (cases rows) auto
  have parse: "\<not> (\<exists>r \<in> set rows. \<exists>t \<in> set r. float_of t = None)"
    using assms by blast
  show ?thesis
    unfolding np_array_float_def using rect parse by (simp only: if_False)
qed

lemma np_array_float_Inr:
  "np_array_float float_of rows = Inr a \<Longrightarrow>
   a = map (map (\<lambda>t. the (float_of t))) rows \<and> (\<forall>r \<in> set rows. length r = ncols rows)"
  by (auto simp: np_array_float_def split: if_splits)

lemma read_smesh_well_formed:
  assumes "smesh_well_formed float_of lines"
  shows "read_smesh float_of lines = Inr (smesh_block float_of lines)"
proof -
  let ?rows = "map py_split (take 204 (drop 5 lines))"
  let ?a = "map (map (\<lambda>t. the (float_of t))) ?rows"
  let ?flat = "concat (map butlast ?a)"
  have len: "209 \<le> length lines" using assms by (simp add: smesh_well_formed_def)
  have rows: "\<forall>r \<in> set ?rows. length r = 4 \<and> (\<forall>t \<in> set r. float_of t \<noteq> None)"
    using assms by (auto simp: smesh_well_formed_def)
  have n: "length ?rows = 204" using len by simp
  have arr: "np_array_float float_of ?rows = Inr ?a"
    using rows by (rule np_array_float_ok)
  have ne: "?a \<noteq> []" using n by auto
  have three: "\<forall>xs \<in> set (map butlast ?a). length xs = 3"
    using rows by auto
  have flat: "length ?flat = 17 * 12 * 3"
    using concat_uniform_length[OF three] n by simp
  have entry: "?flat ! ((a * 12 + b) * 3 + c) = the (float_of (py_split (lines ! (5 + (a * 12 + b))) ! c))"
    if "a < 17" "b < 12" "c < 3" for a b c
  proof -
    have r: "a * 12 + b < 204" using that by simp
    then have r': "a * 12 + b < length (map butlast ?a)" using n by simp
    have row: "length (?rows ! (a * 12 + b)) = 4"
      using rows r n by (metis nth_mem)
    have "?flat ! ((a * 12 + b) * 3 + c) = map butlast ?a ! (a * 12 + b) ! c"
      using three r' that(3) by (rule concat_uniform_nth)
    also have "\<dots> = butlast (map (\<lambda>t. the (float_of t)) (?rows ! (a * 12 + b))) ! c"
      using r n by simp
    also have "\<dots> = the (float_of (?rows ! (a * 12 + b) ! c))"
      using row that(3) by (simp add: nth_butlast)
    also have "?rows ! (a * 12 + b) = py_split (lines ! (5 + (a * 12 + b)))"
      using r len by simp
    finally show ?thesis .
  qed
  have "block_of 17 12 3 ?flat = smesh_block float_of lines"
    unfolding block_of_def smesh_block_def
    by (intro map_cong refl entry) simp_all
  then have "reshape3 17 12 3 ?flat = Inr (smesh_block float_of lines)"
    using reshape3_block[OF flat] by simp
  then show ?thesis
    using arr ne by (simp add: read_smesh_def)
qed

lemma smesh_block_image: "is_image 17 12 3 (smesh_block float_of lines)"
  by (auto simp: is_image_def is_matrix_def smesh_block_def)

lemma read_files_result:
  assumes "\<forall>j \<in> set js. \<exists>lines. fs (run_path @ [smesh_name j]) = Some lines
                                    \<and> read_smesh float_of lines = Inr (b j)"
  shows "read_files float_of fs run_path js = Inr (map b js)"
  using assms by (induction js) auto

lemma read_files_cong:
  "\<forall>j \<in> set js. fs' (run_path @ [smesh_name j]) = fs (run_path @ [smesh_name j]) \<Longrightarrow>
   read_files float_of fs' run_path js = read_files float_of fs run_path js"
  by (induction js) (simp_all split: option.splits sum.splits)

lemma input_runs_result:
  assumes "\<forall>i \<in> set runs. read_files float_of fs (folder @ [run_dir i]) [1..<4] = Inr (g i)"
    and "distinct runs" and "\<forall>i \<in> set runs. run_dir i \<notin> fst ` set d"
  shows "input_runs float_of fs folder runs d = Inr (d @ map (\<lambda>i. (run_dir i, g i)) runs)"
  using assms
proof (induction runs arbitrary: d)
  case Nil
  then show ?case by simp
next
  case (Cons i rest)
  have fresh: "run_dir i \<notin> fst ` set d" using Cons.prems(3) by simp
  have "\<forall>k \<in> set rest. run_dir k \<notin> fst ` set (d @ [(run_dir i, g i)])"
    using Cons.prems(2,3) run_dir_inj by auto
  then have "input_runs float_of fs folder rest (d @ [(run_dir i, g i)])
           = Inr ((d @ [(run_dir i, g i)]) @ map (\<lambda>i. (run_dir i, g i)) rest)"
    using Cons.prems(1,2) by (intro Cons.IH) simp_all
  then show ?case
    using Cons.prems(1) by (simp add: update_fresh[OF fresh])
qed

lemma input_runs_cong:
  "\<forall>i \<in> set runs. \<forall>j \<in> set [1..<4]. fs' (folder @ [run_dir i, smesh_name j]) = fs (folder @ [run_dir i, smesh_name j]) \<Longrightarrow>
   input_runs float_of fs' folder runs d = input_runs float_of fs folder runs d"
proof (induction runs arbitrary: d)
  case Nil
  then show ?case by simp
next
  case (Cons i rest)
  have "read_files float_of fs' (folder @ [run_dir i]) [1..<4]
      = read_files float_of fs (folder @ [run_dir i]) [1..<4]"
    using Cons.prems by (intro read_files_cong) simp
  moreover have "input_runs float_of fs' folder rest d' = input_runs float_of fs folder rest d'" for d'
    using Cons.prems by (intro Cons.IH) simp
  ultimately show ?case by (simp split: sum.splits)
qed

lemma map_of_keyed:
  assumes "inj f" "i \<in> set xs"
  shows "map_of (map (\<lambda>i. (f i, g i)) xs) (f i) = Some (g i)"
  using assms(2)
proof (induction xs)
  case Nil
  then show ?case by simp
next
  case (Cons x xs)
  then show ?case using assms(1) by (auto simp: inj_def)
qed

lemma run_dir_injective: "inj run_dir"
  by (simp add: inj_def run_dir_inj)

lemma run_range: "set [1..<65] = {1..64::nat}" "set [1..<4] = {1..3::nat}"
  by auto

lemma upt_3: "[0..<3] = [0, 1, 2]"
  by (simp add: upt_conv_Cons)

lemma length_chunk: "i + n \<le> length xs \<Longrightarrow> length (take n (drop i xs)) = n"
  by simp

lemma read_result_well_formed:
  assumes "result_well_formed float_of lines"
  shows "read_result float_of lines = Inr (result_blocks float_of lines)"
proof -
  let ?rows = "map py_split (drop 1 lines)"
  let ?content = "map (map (\<lambda>t. the (float_of t))) ?rows"
  let ?n = "length ?content div 3"
  let ?k = "ncols ?rows"
  have mod3: "length ?content mod 3 = 0" and size: "?n * ?k = 612"
    and rows: "\<forall>r \<in> set ?rows. length r = ?k \<and> (\<forall>t \<in> set r. float_of t \<noteq> None)"
    using assms by (simp_all add: result_well_formed_def Let_def)
  have arr: "np_array_float float_of ?rows = Inr ?content"
    using rows by (rule np_array_float_ok)
  have len: "length ?content = 3 * ?n"
    using mod3 mult_div_mod_eq[of 3 "length ?content"] by simp
  have uniform: "\<forall>xs \<in> set ?content. length xs = ?k" using rows by auto
  have chunk: "length (concat (take ?n (drop (p * ?n) ?content))) = 17 * 12 * 3" if "p < 3" for p
  proof -
    have "p * ?n + ?n = Suc p * ?n" by simp
    also have "\<dots> \<le> 3 * ?n" using that by (intro mult_le_mono1) simp
    also have "\<dots> = length ?content" using len by (rule sym)
    finally have "p * ?n + ?n \<le> length ?content" .
    then have l: "length (take ?n (drop (p * ?n) ?content)) = ?n" by (rule length_chunk)
    have "set (take ?n (drop (p * ?n) ?content)) \<subseteq> set ?content"
      using set_take_subset set_drop_subset by fast
    then have "\<forall>xs \<in> set (take ?n (drop (p * ?n) ?content)). length xs = ?k"
      using uniform by blast
    then have "length (concat (take ?n (drop (p * ?n) ?content)))
             = length (take ?n (drop (p * ?n) ?content)) * ?k"
      by (rule concat_uniform_length)
    also have "\<dots> = ?n * ?k" by (simp only: l)
    also have "\<dots> = 612" by (rule size)
    finally show ?thesis by simp
  qed
  have parts: "np_split3 ?content
      = Inr [take ?n ?content, take ?n (drop ?n ?content), take ?n (drop (2 * ?n) ?content)]"
    using mod3 by (simp add: np_split3_def Let_def)
  have c0: "reshape3 17 12 3 (concat (take ?n ?content)) = Inr (block_of 17 12 3 (concat (take ?n ?content)))"
    using chunk[of 0] by (intro reshape3_block) simp
  have c1: "reshape3 17 12 3 (concat (take ?n (drop ?n ?content)))
          = Inr (block_of 17 12 3 (concat (take ?n (drop ?n ?content))))"
    using chunk[of 1] by (intro reshape3_block) simp
  have c2: "reshape3 17 12 3 (concat (take ?n (drop (2 * ?n) ?content)))
          = Inr (block_of 17 12 3 (concat (take ?n (drop (2 * ?n) ?content))))"
    using chunk[of 2] by (intro reshape3_block) simp
  have "reshape_all [take ?n ?content, take ?n (drop ?n ?content), take ?n (drop (2 * ?n) ?content)]
      = Inr (result_blocks float_of lines)"
    using c0 c1 c2 by (simp add: result_blocks_def Let_def upt_3)
  then show ?thesis
    using arr parts by (simp add: read_result_def)
qed

lemma result_blocks_shape:
  "length (result_blocks float_of lines) = 3"
  "\<forall>b \<in> set (result_blocks float_of lines). is_image 17 12 3 b"
  by (simp_all add: result_blocks_def Let_def block_of_image)

lemma final_files_result:
  assumes "\<forall>c \<in> set cs. \<forall>lines. fs (dir @ [result_name c i]) = Some lines
                                  \<longrightarrow> read_result float_of lines = Inr (g c)"
    and "distinct (map label_of cs)" and "\<forall>c \<in> set cs. label_of c \<notin> fst ` set d"
  shows "final_files float_of fs dir i cs d
       = Inr (d @ map (\<lambda>c. (label_of c, g c)) (filter (\<lambda>c. fs (dir @ [result_name c i]) \<noteq> None) cs))"
  using assms
proof (induction cs arbitrary: d)
  case Nil
  then show ?case by simp
next
  case (Cons c rest)
  show ?case
  proof (cases "fs (dir @ [result_name c i])")
    case None
    have "final_files float_of fs dir i rest d
        = Inr (d @ map (\<lambda>c. (label_of c, g c)) (filter (\<lambda>c. fs (dir @ [result_name c i]) \<noteq> None) rest))"
      using Cons.prems by (intro Cons.IH) simp_all
    then show ?thesis using None by simp
  next
    case (Some lines)
    have fresh: "label_of c \<notin> fst ` set d" using Cons.prems(3) by simp
    have read: "read_result float_of lines = Inr (g c)" using Cons.prems(1) Some by simp
    have "label_of c' \<noteq> label_of c" if "c' \<in> set rest" for c'
    proof -
      have "label_of c' \<in> label_of ` set rest" using that by (rule imageI)
      moreover have "label_of c \<notin> label_of ` set rest" using Cons.prems(2) by simp
      ultimately show ?thesis by metis
    qed
    then have "\<forall>c' \<in> set rest. label_of c' \<notin> fst ` set (d @ [(label_of c, g c)])"
      using Cons.prems(3) by simp
    then have "final_files float_of fs dir i rest (d @ [(label_of c, g c)])
        = Inr ((d @ [(label_of c, g c)])
               @ map (\<lambda>c. (label_of c, g c)) (filter (\<lambda>c. fs (dir @ [result_name c i]) \<noteq> None) rest))"
      using Cons.prems(1,2) by (intro Cons.IH) simp_all
    then show ?thesis using Some read by (simp add: update_fresh[OF fresh])
  qed
qed

lemma map_of_filtered:
  assumes "distinct (map f cs)" "c \<in> set cs"
  shows "map_of (map (\<lambda>c. (f c, g c)) (filter P cs)) (f c) = (if P c then Some (g c) else None)"
  using assms
proof (induction cs)
  case Nil
  then show ?case by simp
next
  case (Cons x cs)
  show ?case
  proof (cases "c = x")
    case True
    have "f x \<notin> f ` set cs" using Cons.prems(1) by simp
    then have "f x \<notin> fst ` set (map (\<lambda>c. (f c, g c)) (filter P cs))" by auto
    then have "map_of (map (\<lambda>c. (f c, g c)) (filter P cs)) (f x) = None"
      by (simp add: map_of_eq_None_iff)
    then show ?thesis using True by simp
  next
    case False
    then have "c \<in> set cs" using Cons.prems(2) by simp
    moreover have "f c \<noteq> f x"
    proof
      assume "f c = f x"
      then have "f x \<in> f ` set cs" using calculation by (metis imageI)
      then show False using Cons.prems(1) by simp
    qed
    ultimately show ?thesis using Cons by simp
  qed
qed

lemma final_runs_result:
  assumes "\<forall>i \<in> set runs. final_files float_of fs dir i combinations [] = Inr (h i)"
    and "distinct runs" and "\<forall>i \<in> set runs. run_dir i \<notin> fst ` set d"
  shows "final_runs float_of fs dir runs d = Inr (d @ map (\<lambda>i. (run_dir i, h i)) runs)"
  using assms
proof (induction runs arbitrary: d)
  case Nil
  then show ?case by simp
next
  case (Cons i rest)
  have fresh: "run_dir i \<notin> fst ` set d" using Cons.prems(3) by simp
  have "\<forall>k \<in> set rest. run_dir k \<notin> fst ` set (d @ [(run_dir i, h i)])"
    using Cons.prems(2,3) run_dir_inj by auto
  then have "final_runs float_of fs dir rest (d @ [(run_dir i, h i)])
           = Inr ((d @ [(run_dir i, h i)]) @ map (\<lambda>i. (run_dir i, h i)) rest)"
    using Cons.prems(1,2) by (intro Cons.IH) simp_all
  then show ?case
    using Cons.prems(1) by (simp add: update_fresh[OF fresh])
qed

lemma combinations_labels:
  "map label_of combinations =
     [''80_t1_p1'', ''80_t2_p1'', ''80_t3_p1'', ''80_t4_p1'', ''80_t5_p1'',
      ''80_t1_p2'', ''80_t2_p2'', ''80_t3_p2'', ''80_t4_p2'', ''80_t5_p2'',
      ''80_t1_p3'', ''80_t2_p3'', ''80_t3_p3'', ''80_t4_p3'', ''80_t5_p3'',
      ''140_t1_p1'', ''140_t2_p1'', ''140_t3_p1'', ''140_t4_p1'', ''140_t5_p1'',
      ''140_t1_p2'', ''140_t2_p2'', ''140_t3_p2'', ''140_t4_p2'', ''140_t5_p2'',
      ''140_t1_p3'', ''140_t2_p3'', ''140_t3_p3'', ''140_t4_p3'', ''140_t5_p3'']"
  by (simp add: combinations_def timesteps_def pressures_def temperatures_def label_of_def
      str_of_nat.simps digit_char_def)

lemma combinations_distinct: "distinct (map label_of combinations)"
  unfolding combinations_labels by simp



lemma load_final_geometry_result:
  assumes "\<forall>i \<in> {1..64}. \<forall>c \<in> set combinations. \<forall>lines.
             fs (final_path folder c i) = Some lines \<longrightarrow> result_well_formed float_of lines"
  shows "load_final_geometry float_of fs folder =
         Inr (map (\<lambda>i. (run_dir i,
                 map (\<lambda>c. (label_of c, result_blocks float_of (the (fs (final_path folder c i)))))
                   (filter (\<lambda>c. fs (final_path folder c i) \<noteq> None) combinations)))
              [1..<65])"
proof -
  let ?dir = "folder @ [''final_geometry'']"
  let ?g = "\<lambda>i c. result_blocks float_of (the (fs (final_path folder c i)))"
  let ?h = "\<lambda>i. map (\<lambda>c. (label_of c, ?g i c))
                   (filter (\<lambda>c. fs (final_path folder c i) \<noteq> None) combinations)"
  have p: "?dir @ [result_name c i] = final_path folder c i" for c i
    by (simp add: final_path_def)
  have "final_files float_of fs ?dir i combinations [] = Inr (?h i)" if "i \<in> set [1..<65]" for i
  proof -
    have i: "i \<in> {1..64}" using that by auto
    have "\<forall>c \<in> set combinations. \<forall>lines. fs (?dir @ [result_name c i]) = Some lines
            \<longrightarrow> read_result float_of lines = Inr (?g i c)"
    proof (intro ballI allI impI)
      fix c lines
      assume c: "c \<in> set combinations" and "fs (?dir @ [result_name c i]) = Some lines"
      then have f: "fs (final_path folder c i) = Some lines" by (simp only: p)
      then have "result_well_formed float_of lines" using assms i c by blast
      then have "read_result float_of lines = Inr (result_blocks float_of lines)"
        by (rule read_result_well_formed)
      then show "read_result float_of lines = Inr (?g i c)" by (simp add: f)
    qed
    then have "final_files float_of fs ?dir i combinations []
        = Inr ([] @ map (\<lambda>c. (label_of c, ?g i c))
                      (filter (\<lambda>c. fs (?dir @ [result_name c i]) \<noteq> None) combinations))"
      using combinations_distinct by (rule final_files_result) simp
    then show ?thesis by (simp only: p append_Nil)
  qed
  then have "final_runs float_of fs ?dir [1..<65] [] = Inr ([] @ map (\<lambda>i. (run_dir i, ?h i)) [1..<65])"
    by (intro final_runs_result) simp_all
  then show ?thesis by (simp add: load_final_geometry_def)
qed


lemma sample_line_4: "py_split ''1 0 1 0'' = [''1'', ''0'', ''1'', ''0'']"
  by (simp add: py_split_def is_space_def)


lemma names: "run_dir 1 = ''run1''" "run_dir 64 = ''run64''" "smesh_name 3 = ''smesh.1.3.txt''"
  by (simp_all add: run_dir_def smesh_name_def str_of_nat.simps digit_char_def)

section \<open>The input geometry\<close>

lemma run_names:
  "map run_dir [1..<65] =
     [''run1'', ''run2'', ''run3'', ''run4'', ''run5'', ''run6'', ''run7'', ''run8'', ''run9'',
      ''run10'', ''run11'', ''run12'', ''run13'', ''run14'', ''run15'', ''run16'', ''run17'',
      ''run18'', ''run19'', ''run20'', ''run21'', ''run22'', ''run23'', ''run24'', ''run25'',
      ''run26'', ''run27'', ''run28'', ''run29'', ''run30'', ''run31'', ''run32'', ''run33'',
      ''run34'', ''run35'', ''run36'', ''run37'', ''run38'', ''run39'', ''run40'', ''run41'',
      ''run42'', ''run43'', ''run44'', ''run45'', ''run46'', ''run47'', ''run48'', ''run49'',
      ''run50'', ''run51'', ''run52'', ''run53'', ''run54'', ''run55'', ''run56'', ''run57'',
      ''run58'', ''run59'', ''run60'', ''run61'', ''run62'', ''run63'', ''run64'']"
  by code_simp

lemma smesh_names:
  "map smesh_name [1..<4] = [''smesh.1.1.txt'', ''smesh.1.2.txt'', ''smesh.1.3.txt'']"
  by code_simp

lemma smesh_name_cases:
  "j \<in> {1..3} \<Longrightarrow> smesh_name j \<in> {''smesh.1.1.txt'', ''smesh.1.2.txt'', ''smesh.1.3.txt''}"
proof -
  assume "j \<in> {1..3}"
  then have "j \<in> set [1..<4]" by auto
  then have "smesh_name j \<in> set (map smesh_name [1..<4])" by simp
  then show ?thesis unfolding smesh_names by simp
qed

text \<open>
  C7. When each of the files \<open>folder/run{i}/smesh.1.{j}.txt\<close>, i = 1..64, j = 1..3, has at
  least 209 lines and its lines 6 to 209 hold four numbers each,
  \<open>load_input_geometry\<close> returns a mapping whose keys are exactly \<open>run1\<close> to \<open>run64\<close>;
  each run maps to the three blocks of its three files \<open>smesh.1.1.txt\<close>, \<open>smesh.1.2.txt\<close>,
  \<open>smesh.1.3.txt\<close>, in this order; entry (a, b, c) of a block is column c (of the first
  three: the last is dropped) of line 6 + 12 a + b of the file; each block has shape 17
  by 12 by 3. No other file is read: the result is the same on every file system that
  agrees on these files.
\<close>

theorem load_input_geometry_reads:
  assumes "\<forall>i \<in> {1..64}. \<forall>name \<in> {''smesh.1.1.txt'', ''smesh.1.2.txt'', ''smesh.1.3.txt''}. \<exists>lines.
             fs (folder @ [run_dir i, name]) = Some lines \<and> smesh_well_formed float_of lines"
  shows "\<exists>m. load_input_geometry float_of fs folder = Inr m
          \<and> map fst m =
     [''run1'', ''run2'', ''run3'', ''run4'', ''run5'', ''run6'', ''run7'', ''run8'', ''run9'',
      ''run10'', ''run11'', ''run12'', ''run13'', ''run14'', ''run15'', ''run16'', ''run17'',
      ''run18'', ''run19'', ''run20'', ''run21'', ''run22'', ''run23'', ''run24'', ''run25'',
      ''run26'', ''run27'', ''run28'', ''run29'', ''run30'', ''run31'', ''run32'', ''run33'',
      ''run34'', ''run35'', ''run36'', ''run37'', ''run38'', ''run39'', ''run40'', ''run41'',
      ''run42'', ''run43'', ''run44'', ''run45'', ''run46'', ''run47'', ''run48'', ''run49'',
      ''run50'', ''run51'', ''run52'', ''run53'', ''run54'', ''run55'', ''run56'', ''run57'',
      ''run58'', ''run59'', ''run60'', ''run61'', ''run62'', ''run63'', ''run64'']
          \<and> map run_dir [1..<65] = map fst m
          \<and> distinct (map fst m)
          \<and> (\<forall>i \<in> {1..64}. \<exists>blocks.
                map_of m (run_dir i) = Some blocks
                \<and> blocks = map (\<lambda>name. smesh_block float_of (the (fs (folder @ [run_dir i, name]))))
                             [''smesh.1.1.txt'', ''smesh.1.2.txt'', ''smesh.1.3.txt'']
                \<and> length blocks = 3
                \<and> (\<forall>b \<in> set blocks. is_image 17 12 3 b))
          \<and> (\<forall>fs'. (\<forall>i \<in> {1..64}. \<forall>name \<in> {''smesh.1.1.txt'', ''smesh.1.2.txt'', ''smesh.1.3.txt''}.
                       fs' (folder @ [run_dir i, name]) = fs (folder @ [run_dir i, name]))
                    \<longrightarrow> load_input_geometry float_of fs' folder = load_input_geometry float_of fs folder)"
proof -
  let ?g = "\<lambda>i. map (\<lambda>j. smesh_block float_of (the (fs (folder @ [run_dir i, smesh_name j])))) [1..<4]"
  let ?m = "map (\<lambda>i. (run_dir i, ?g i)) [1..<65]"
  have g: "?g i = map (\<lambda>name. smesh_block float_of (the (fs (folder @ [run_dir i, name]))))
                             [''smesh.1.1.txt'', ''smesh.1.2.txt'', ''smesh.1.3.txt'']" for i
    unfolding smesh_names[symmetric] by (simp add: comp_def)
  have files: "read_files float_of fs (folder @ [run_dir i]) [1..<4] = Inr (?g i)"
    if "i \<in> set [1..<65]" for i
  proof (rule read_files_result)
    show "\<forall>j \<in> set [1..<4]. \<exists>lines. fs ((folder @ [run_dir i]) @ [smesh_name j]) = Some lines
            \<and> read_smesh float_of lines
               = Inr (smesh_block float_of (the (fs (folder @ [run_dir i, smesh_name j]))))"
    proof
      fix j assume "j \<in> set [1..<4]"
      then have "i \<in> {1..64}" "j \<in> {1..3}" using that by auto
      then have "i \<in> {1..64}" "smesh_name j \<in> {''smesh.1.1.txt'', ''smesh.1.2.txt'', ''smesh.1.3.txt''}"
        by (simp_all only: smesh_name_cases)
      then obtain lines where "fs (folder @ [run_dir i, smesh_name j]) = Some lines"
        and "smesh_well_formed float_of lines"
        using assms by blast
      then show "\<exists>lines. fs ((folder @ [run_dir i]) @ [smesh_name j]) = Some lines
            \<and> read_smesh float_of lines
               = Inr (smesh_block float_of (the (fs (folder @ [run_dir i, smesh_name j]))))"
        using read_smesh_well_formed by simp
    qed
  qed
  have run: "load_input_geometry float_of fs folder = Inr ?m"
    unfolding load_input_geometry_def
    using input_runs_result[where d = "[]" and g = ?g and runs = "[1..<65]", of float_of fs folder] files
    by simp
  have keys: "map fst ?m = map run_dir [1..<65]"
    by (simp add: comp_def)
  have look: "map_of ?m (run_dir i) = Some (?g i)" if "i \<in> {1..64}" for i
    using that by (intro map_of_keyed run_dir_injective) auto
  have shape: "\<forall>b \<in> set (?g i). is_image 17 12 3 b" for i
    by (simp add: smesh_block_image)
  have frame: "load_input_geometry float_of fs' folder = load_input_geometry float_of fs folder"
    if f: "\<forall>i \<in> {1..64}. \<forall>name \<in> {''smesh.1.1.txt'', ''smesh.1.2.txt'', ''smesh.1.3.txt''}.
          fs' (folder @ [run_dir i, name]) = fs (folder @ [run_dir i, name])" for fs'
  proof -
    have "\<forall>i \<in> set [1..<65]. \<forall>j \<in> set [1..<4].
            fs' (folder @ [run_dir i, smesh_name j]) = fs (folder @ [run_dir i, smesh_name j])"
      unfolding run_range using f smesh_name_cases by blast
    then show ?thesis
      unfolding load_input_geometry_def by (rule input_runs_cong)
  qed
  have each: "\<forall>i \<in> {1..64}. \<exists>blocks.
                map_of ?m (run_dir i) = Some blocks
                \<and> blocks = map (\<lambda>name. smesh_block float_of (the (fs (folder @ [run_dir i, name]))))
                             [''smesh.1.1.txt'', ''smesh.1.2.txt'', ''smesh.1.3.txt'']
                \<and> length blocks = 3
                \<and> (\<forall>b \<in> set blocks. is_image 17 12 3 b)"
  proof
    fix i :: nat
    let ?lit = "map (\<lambda>name. smesh_block float_of (the (fs (folder @ [run_dir i, name]))))
                             [''smesh.1.1.txt'', ''smesh.1.2.txt'', ''smesh.1.3.txt'']"
    assume "i \<in> {1..64}"
    then have "map_of ?m (run_dir i) = Some (?g i)" by (rule look)
    then have "map_of ?m (run_dir i) = Some ?lit" by (simp only: g)
    moreover have "\<forall>b \<in> set ?lit. is_image 17 12 3 b" by (simp add: smesh_block_image)
    moreover have "length ?lit = 3" by simp
    ultimately show "\<exists>blocks. map_of ?m (run_dir i) = Some blocks \<and> blocks = ?lit
                \<and> length blocks = 3 \<and> (\<forall>b \<in> set blocks. is_image 17 12 3 b)" by blast
  qed
  have lit: "map fst ?m =
     [''run1'', ''run2'', ''run3'', ''run4'', ''run5'', ''run6'', ''run7'', ''run8'', ''run9'',
      ''run10'', ''run11'', ''run12'', ''run13'', ''run14'', ''run15'', ''run16'', ''run17'',
      ''run18'', ''run19'', ''run20'', ''run21'', ''run22'', ''run23'', ''run24'', ''run25'',
      ''run26'', ''run27'', ''run28'', ''run29'', ''run30'', ''run31'', ''run32'', ''run33'',
      ''run34'', ''run35'', ''run36'', ''run37'', ''run38'', ''run39'', ''run40'', ''run41'',
      ''run42'', ''run43'', ''run44'', ''run45'', ''run46'', ''run47'', ''run48'', ''run49'',
      ''run50'', ''run51'', ''run52'', ''run53'', ''run54'', ''run55'', ''run56'', ''run57'',
      ''run58'', ''run59'', ''run60'', ''run61'', ''run62'', ''run63'', ''run64'']"
    unfolding keys by (rule run_names)
  have k2: "map run_dir [1..<65] = map fst ?m"
    by (rule keys[symmetric])
  have dist: "distinct (map fst ?m)"
    unfolding keys by (rule run_dir_distinct) simp
  show ?thesis
    by (intro exI[of _ ?m] conjI allI impI) (rule run lit k2 dist each frame, assumption?)+
qed

lemma smesh_file_lines:
  "length (smesh_file first) = 210"
  "take 204 (drop 5 (smesh_file first)) = first # replicate 203 ''0 0 0 1''"
  "smesh_file first ! 5 = first"
  "smesh_file first ! 208 = ''0 0 0 1''"
  by (simp_all add: smesh_file_def nth_append)

lemma sample_tokens:
  "py_split ''1 0 0 0'' = [''1'', ''0'', ''0'', ''0'']"
  "py_split ''0 1 0 0'' = [''0'', ''1'', ''0'', ''0'']"
  "py_split ''0 0 1 0'' = [''0'', ''0'', ''1'', ''0'']"
  "py_split ''1 1 1 0'' = [''1'', ''1'', ''1'', ''0'']"
  "py_split ''0 0 0 1'' = [''0'', ''0'', ''0'', ''1'']"
  by (simp_all add: py_split_def is_space_def)

lemma smesh_file_well_formed:
  "first \<in> {''1 0 0 0'', ''0 1 0 0'', ''0 0 1 0'', ''1 1 1 0''} \<Longrightarrow>
   smesh_well_formed sample_float_of (smesh_file first)"
  unfolding smesh_well_formed_def smesh_file_lines
  by (auto simp: sample_tokens sample_float_of_def)

lemma smesh_fs_cases:
  "name \<in> {''smesh.1.1.txt'', ''smesh.1.2.txt'', ''smesh.1.3.txt''} \<Longrightarrow>
   \<exists>first \<in> {''1 0 0 0'', ''0 1 0 0'', ''0 0 1 0'', ''1 1 1 0''}.
      smesh_fs ([''data''] @ [run_dir i, name]) = Some (smesh_file first)"
  by (auto simp: smesh_fs_def run_dir_def)

lemma smesh_fs_files:
  "\<forall>i \<in> {1..64}. \<forall>name \<in> {''smesh.1.1.txt'', ''smesh.1.2.txt'', ''smesh.1.3.txt''}. \<exists>lines.
     smesh_fs ([''data''] @ [run_dir i, name]) = Some lines \<and> smesh_well_formed sample_float_of lines"
  using smesh_fs_cases smesh_file_well_formed by meson

lemma smesh_block_entry:
  "a < 17 \<Longrightarrow> b < 12 \<Longrightarrow>
   smesh_block float_of lines ! a ! b
     = map (\<lambda>c. the (float_of (py_split (lines ! (5 + (a * 12 + b))) ! c))) [0..<3]"
  by (simp add: smesh_block_def)

lemma smesh_file_entries:
  "first \<in> {''1 0 0 0'', ''0 1 0 0'', ''0 0 1 0'', ''1 1 1 0''} \<Longrightarrow>
   smesh_block sample_float_of (smesh_file first) ! 0 ! 0
     = map (\<lambda>t. the (sample_float_of t)) (butlast (py_split first))
   \<and> smesh_block sample_float_of (smesh_file first) ! 16 ! 11 = [0, 0, 0]"
  by (auto simp: smesh_block_entry smesh_file_lines sample_tokens sample_float_of_def upt_3)

lemma sample_files:
  "smesh_fs ([''data''] @ [''run1'', ''smesh.1.1.txt'']) = Some (smesh_file ''1 0 0 0'')"
  "smesh_fs ([''data''] @ [''run1'', ''smesh.1.2.txt'']) = Some (smesh_file ''0 1 0 0'')"
  "smesh_fs ([''data''] @ [''run1'', ''smesh.1.3.txt'']) = Some (smesh_file ''0 0 1 0'')"
  "smesh_fs ([''data''] @ [''run64'', ''smesh.1.1.txt'']) = Some (smesh_file ''1 0 0 0'')"
  "smesh_fs ([''data''] @ [''run64'', ''smesh.1.2.txt'']) = Some (smesh_file ''0 1 0 0'')"
  "smesh_fs ([''data''] @ [''run64'', ''smesh.1.3.txt'']) = Some (smesh_file ''1 1 1 0'')"
  by (simp_all add: smesh_fs_def)

theorem load_input_geometry_reads_witness:
  "\<exists>m. load_input_geometry sample_float_of smesh_fs [''data''] = Inr m
     \<and> length m = 64
     \<and> (\<exists>b1 b2 b3. map_of m ''run1'' = Some [b1, b2, b3]
           \<and> b1 ! 0 ! 0 = [1, 0, 0] \<and> b2 ! 0 ! 0 = [0, 1, 0] \<and> b3 ! 0 ! 0 = [0, 0, 1]
           \<and> b1 ! 16 ! 11 = [0, 0, 0])
     \<and> (\<exists>b1 b2 b3. map_of m ''run64'' = Some [b1, b2, b3]
           \<and> b1 ! 0 ! 0 = [1, 0, 0] \<and> b2 ! 0 ! 0 = [0, 1, 0] \<and> b3 ! 0 ! 0 = [1, 1, 1])"
proof -
  note T = load_input_geometry_reads[OF smesh_fs_files]
  from T show ?thesis
  proof (elim exE conjE)
    fix m
    assume m: "load_input_geometry sample_float_of smesh_fs [''data''] = Inr m"
      and keys: "map run_dir [1..<65] = map fst m"
      and each: "\<forall>i \<in> {1..64}. \<exists>blocks.
                map_of m (run_dir i) = Some blocks
                \<and> blocks = map (\<lambda>name. smesh_block sample_float_of
                                 (the (smesh_fs ([''data''] @ [run_dir i, name]))))
                             [''smesh.1.1.txt'', ''smesh.1.2.txt'', ''smesh.1.3.txt'']
                \<and> length blocks = 3
                \<and> (\<forall>b \<in> set blocks. is_image 17 12 3 b)"
    have "length (map fst m) = 64" unfolding keys[symmetric] by simp
    then have len: "length m = 64" by simp
    have r1: "map_of m ''run1'' = Some [smesh_block sample_float_of (smesh_file ''1 0 0 0''),
                smesh_block sample_float_of (smesh_file ''0 1 0 0''),
                smesh_block sample_float_of (smesh_file ''0 0 1 0'')]"
    proof -
      have "(1::nat) \<in> {1..64}" by simp
      then obtain blocks where "map_of m (run_dir 1) = Some blocks"
        and "blocks = map (\<lambda>name. smesh_block sample_float_of
                                 (the (smesh_fs ([''data''] @ [run_dir 1, name]))))
                             [''smesh.1.1.txt'', ''smesh.1.2.txt'', ''smesh.1.3.txt'']"
        using each by blast
      then show ?thesis by (simp only: names sample_files list.map option.sel)
    qed
    have r64: "map_of m ''run64'' = Some [smesh_block sample_float_of (smesh_file ''1 0 0 0''),
                smesh_block sample_float_of (smesh_file ''0 1 0 0''),
                smesh_block sample_float_of (smesh_file ''1 1 1 0'')]"
    proof -
      have "(64::nat) \<in> {1..64}" by simp
      then obtain blocks where "map_of m (run_dir 64) = Some blocks"
        and "blocks = map (\<lambda>name. smesh_block sample_float_of
                                 (the (smesh_fs ([''data''] @ [run_dir 64, name]))))
                             [''smesh.1.1.txt'', ''smesh.1.2.txt'', ''smesh.1.3.txt'']"
        using each by blast
      then show ?thesis by (simp only: names sample_files list.map option.sel)
    qed
    have e: "smesh_block sample_float_of (smesh_file ''1 0 0 0'') ! 0 ! 0 = [1, 0, 0]"
      "smesh_block sample_float_of (smesh_file ''0 1 0 0'') ! 0 ! 0 = [0, 1, 0]"
      "smesh_block sample_float_of (smesh_file ''0 0 1 0'') ! 0 ! 0 = [0, 0, 1]"
      "smesh_block sample_float_of (smesh_file ''1 1 1 0'') ! 0 ! 0 = [1, 1, 1]"
      "smesh_block sample_float_of (smesh_file ''1 0 0 0'') ! 16 ! 11 = [0, 0, 0]"
      by (simp_all add: smesh_file_entries sample_tokens sample_float_of_def)
    show ?thesis
      using m len r1 r64 e by simp
  qed
qed

section \<open>The final geometry\<close>

lemma run_suffixes:
  "map (\<lambda>i. ''_'' @ str_of_nat i) [1..<65] =
     [''_1'', ''_2'', ''_3'', ''_4'', ''_5'', ''_6'', ''_7'', ''_8'', ''_9'', ''_10'', ''_11'',
      ''_12'', ''_13'', ''_14'', ''_15'', ''_16'', ''_17'', ''_18'', ''_19'', ''_20'', ''_21'',
      ''_22'', ''_23'', ''_24'', ''_25'', ''_26'', ''_27'', ''_28'', ''_29'', ''_30'', ''_31'',
      ''_32'', ''_33'', ''_34'', ''_35'', ''_36'', ''_37'', ''_38'', ''_39'', ''_40'', ''_41'',
      ''_42'', ''_43'', ''_44'', ''_45'', ''_46'', ''_47'', ''_48'', ''_49'', ''_50'', ''_51'',
      ''_52'', ''_53'', ''_54'', ''_55'', ''_56'', ''_57'', ''_58'', ''_59'', ''_60'', ''_61'',
      ''_62'', ''_63'', ''_64'']"
  by code_simp

lemma final_path_name:
  "final_path folder c i = folder @ [''final_geometry'', ''result_'' @ label_of c @ ''_'' @ str_of_nat i]"
  by (cases c) (simp add: final_path_def result_name_def label_of_def)

text \<open>
  C8. Whatever subset of the files \<open>final_geometry/result_{timestep}_{temperature}_{pressure}_{run}\<close>
  exists, as long as each file that exists parses (a header line, then rows of numbers
  that split into three equal chunks of 612 numbers), \<open>load_final_geometry\<close> returns
  without an error; a missing file leaves its label absent from the run's inner
  mapping, and a file that exists is stored under the label
  \<open>timestep_temperature_pressure\<close> as the three chunks of its body (header skipped), each
  reshaped to 17 by 12 by 3. The labels are the thirty of \<open>80_t1_p1\<close> to \<open>140_t5_p3\<close>, the
  file of a label in run \<open>i\<close> is \<open>result_\<close>, the label, \<open>_\<close> and the number \<open>i\<close>, and the inner
  mapping of a run holds the labels of its existing files, in the order of the loops.
\<close>

theorem load_final_geometry_skips_missing:
  assumes "\<forall>i \<in> {1..64}. \<forall>c \<in> set combinations. \<forall>lines.
             fs (folder @ [''final_geometry'', ''result_'' @ label_of c @ ''_'' @ str_of_nat i]) = Some lines
             \<longrightarrow> result_well_formed float_of lines"
  shows "\<exists>m. load_final_geometry float_of fs folder = Inr m
          \<and> map label_of combinations =
     [''80_t1_p1'', ''80_t2_p1'', ''80_t3_p1'', ''80_t4_p1'', ''80_t5_p1'',
      ''80_t1_p2'', ''80_t2_p2'', ''80_t3_p2'', ''80_t4_p2'', ''80_t5_p2'',
      ''80_t1_p3'', ''80_t2_p3'', ''80_t3_p3'', ''80_t4_p3'', ''80_t5_p3'',
      ''140_t1_p1'', ''140_t2_p1'', ''140_t3_p1'', ''140_t4_p1'', ''140_t5_p1'',
      ''140_t1_p2'', ''140_t2_p2'', ''140_t3_p2'', ''140_t4_p2'', ''140_t5_p2'',
      ''140_t1_p3'', ''140_t2_p3'', ''140_t3_p3'', ''140_t4_p3'', ''140_t5_p3'']
          \<and> map (\<lambda>i. ''_'' @ str_of_nat i) [1..<65] =
     [''_1'', ''_2'', ''_3'', ''_4'', ''_5'', ''_6'', ''_7'', ''_8'', ''_9'', ''_10'', ''_11'',
      ''_12'', ''_13'', ''_14'', ''_15'', ''_16'', ''_17'', ''_18'', ''_19'', ''_20'', ''_21'',
      ''_22'', ''_23'', ''_24'', ''_25'', ''_26'', ''_27'', ''_28'', ''_29'', ''_30'', ''_31'',
      ''_32'', ''_33'', ''_34'', ''_35'', ''_36'', ''_37'', ''_38'', ''_39'', ''_40'', ''_41'',
      ''_42'', ''_43'', ''_44'', ''_45'', ''_46'', ''_47'', ''_48'', ''_49'', ''_50'', ''_51'',
      ''_52'', ''_53'', ''_54'', ''_55'', ''_56'', ''_57'', ''_58'', ''_59'', ''_60'', ''_61'',
      ''_62'', ''_63'', ''_64'']
          \<and> map run_dir [1..<65] =
     [''run1'', ''run2'', ''run3'', ''run4'', ''run5'', ''run6'', ''run7'', ''run8'', ''run9'',
      ''run10'', ''run11'', ''run12'', ''run13'', ''run14'', ''run15'', ''run16'', ''run17'',
      ''run18'', ''run19'', ''run20'', ''run21'', ''run22'', ''run23'', ''run24'', ''run25'',
      ''run26'', ''run27'', ''run28'', ''run29'', ''run30'', ''run31'', ''run32'', ''run33'',
      ''run34'', ''run35'', ''run36'', ''run37'', ''run38'', ''run39'', ''run40'', ''run41'',
      ''run42'', ''run43'', ''run44'', ''run45'', ''run46'', ''run47'', ''run48'', ''run49'',
      ''run50'', ''run51'', ''run52'', ''run53'', ''run54'', ''run55'', ''run56'', ''run57'',
      ''run58'', ''run59'', ''run60'', ''run61'', ''run62'', ''run63'', ''run64'']
          \<and> (\<forall>i \<in> {1..64}. \<exists>run_files.
                map_of m (run_dir i) = Some run_files
                \<and> (\<forall>c \<in> set combinations.
                      map_of run_files (label_of c)
                      = (case fs (folder @ [''final_geometry'', ''result_'' @ label_of c @ ''_'' @ str_of_nat i]) of
                           None \<Rightarrow> None
                         | Some lines \<Rightarrow> Some (result_blocks float_of lines)))
                \<and> map fst run_files
                    = map label_of (filter (\<lambda>c. fs (folder @ [''final_geometry'',
                          ''result_'' @ label_of c @ ''_'' @ str_of_nat i]) \<noteq> None) combinations)
                \<and> (\<forall>g \<in> snd ` set run_files. length g = 3 \<and> (\<forall>b \<in> set g. is_image 17 12 3 b)))"
proof -
  let ?p = "\<lambda>c i. folder @ [''final_geometry'', ''result_'' @ label_of c @ ''_'' @ str_of_nat i]"
  let ?h = "\<lambda>i. map (\<lambda>c. (label_of c, result_blocks float_of (the (fs (?p c i)))))
                   (filter (\<lambda>c. fs (?p c i) \<noteq> None) combinations)"
  let ?m = "map (\<lambda>i. (run_dir i, ?h i)) [1..<65]"
  have "\<forall>i \<in> {1..64}. \<forall>c \<in> set combinations. \<forall>lines.
             fs (final_path folder c i) = Some lines \<longrightarrow> result_well_formed float_of lines"
    using assms by (simp only: final_path_name)
  then have run: "load_final_geometry float_of fs folder = Inr ?m"
    unfolding final_path_name[symmetric] by (rule load_final_geometry_result)
  have look: "map_of ?m (run_dir i) = Some (?h i)" if "i \<in> {1..64}" for i
    using that by (intro map_of_keyed run_dir_injective) auto
  have label: "map_of (?h i) (label_of c)
             = (case fs (?p c i) of
                  None \<Rightarrow> None
                | Some lines \<Rightarrow> Some (result_blocks float_of lines))"
    if "c \<in> set combinations" for i c
    using map_of_filtered[OF combinations_distinct that,
        of "\<lambda>c. result_blocks float_of (the (fs (?p c i)))"
           "\<lambda>c. fs (?p c i) \<noteq> None"]
    by (auto split: option.splits)
  have keys: "map fst (?h i) = map label_of (filter (\<lambda>c. fs (?p c i) \<noteq> None) combinations)" for i
    by (simp add: comp_def)
  have shape: "\<forall>g \<in> snd ` set (?h i). length g = 3 \<and> (\<forall>b \<in> set g. is_image 17 12 3 b)" for i
    using result_blocks_shape by auto
  have each: "\<forall>i \<in> {1..64}. \<exists>run_files.
                map_of ?m (run_dir i) = Some run_files
                \<and> (\<forall>c \<in> set combinations.
                      map_of run_files (label_of c)
                      = (case fs (?p c i) of
                           None \<Rightarrow> None
                         | Some lines \<Rightarrow> Some (result_blocks float_of lines)))
                \<and> map fst run_files = map label_of (filter (\<lambda>c. fs (?p c i) \<noteq> None) combinations)
                \<and> (\<forall>g \<in> snd ` set run_files. length g = 3 \<and> (\<forall>b \<in> set g. is_image 17 12 3 b))"
  proof
    fix i :: nat
    assume "i \<in> {1..64}"
    then have "map_of ?m (run_dir i) = Some (?h i)" by (rule look)
    moreover have "\<forall>c \<in> set combinations.
                      map_of (?h i) (label_of c)
                      = (case fs (?p c i) of
                           None \<Rightarrow> None
                         | Some lines \<Rightarrow> Some (result_blocks float_of lines))"
      using label by blast
    ultimately show "\<exists>run_files.
                map_of ?m (run_dir i) = Some run_files
                \<and> (\<forall>c \<in> set combinations.
                      map_of run_files (label_of c)
                      = (case fs (?p c i) of
                           None \<Rightarrow> None
                         | Some lines \<Rightarrow> Some (result_blocks float_of lines)))
                \<and> map fst run_files = map label_of (filter (\<lambda>c. fs (?p c i) \<noteq> None) combinations)
                \<and> (\<forall>g \<in> snd ` set run_files. length g = 3 \<and> (\<forall>b \<in> set g. is_image 17 12 3 b))"
      using keys[of i] shape[of i] by (intro exI[of _ "?h i"] conjI)
  qed
  show ?thesis
    by (intro exI[of _ ?m] conjI) (rule run combinations_labels run_suffixes run_names each)+
qed

lemma sample_rows:
  "py_split ''1 0 0'' = [''1'', ''0'', ''0'']"
  "py_split ''0 1 0'' = [''0'', ''1'', ''0'']"
  "py_split ''0 0 1'' = [''0'', ''0'', ''1'']"
  "py_split ''1 1 0'' = [''1'', ''1'', ''0'']"
  "py_split ''0 1 1'' = [''0'', ''1'', ''1'']"
  "py_split ''1 0 1'' = [''1'', ''0'', ''1'']"
  "py_split ''1 1 1'' = [''1'', ''1'', ''1'']"
  by (simp_all add: py_split_def is_space_def)

lemma result_file_rows:
  "map py_split (drop 1 (result_file a b c))
     = replicate 204 (py_split a) @ replicate 204 (py_split b) @ replicate 204 (py_split c)"
  by (simp add: result_file_def)

lemma ncols_replicate_append: "0 < n \<Longrightarrow> ncols (replicate n r @ xs) = length r"
  by (cases n) (simp_all add: ncols_def)

lemma result_file_well_formed:
  assumes "length (py_split a) = 3" "length (py_split b) = 3" "length (py_split c) = 3"
    and "\<forall>t \<in> set (py_split a) \<union> set (py_split b) \<union> set (py_split c). float_of t \<noteq> None"
  shows "result_well_formed float_of (result_file a b c)"
  unfolding result_well_formed_def result_file_rows Let_def
  using assms by (auto simp: ncols_replicate_append)

lemma concat_replicate_prefix:
  "0 < n \<Longrightarrow> map (\<lambda>c. concat (replicate n r) ! c) [0..<length r] = r"
proof -
  assume "0 < n"
  then obtain k where k: "n = Suc k" by (cases n) auto
  have "map (\<lambda>c. concat (replicate n r) ! c) [0..<length r] = map (\<lambda>c. r ! c) [0..<length r]"
    by (rule map_cong) (simp_all add: k nth_append)
  then show ?thesis by (simp add: map_nth)
qed

lemma block_first_row: "block_of 17 12 3 flat ! 0 ! 0 = map (\<lambda>c. flat ! c) [0..<3]"
  by (simp add: block_of_def)

lemma result_file_blocks:
  assumes "length (py_split a) = 3" "length (py_split b) = 3" "length (py_split c) = 3"
  shows "map (\<lambda>blk. blk ! 0 ! 0) (result_blocks float_of (result_file a b c))
       = [map (\<lambda>t. the (float_of t)) (py_split a),
          map (\<lambda>t. the (float_of t)) (py_split b),
          map (\<lambda>t. the (float_of t)) (py_split c)]"
proof -
  let ?f = "map (\<lambda>t. the (float_of t))"
  let ?content = "replicate 204 (?f (py_split a)) @ replicate 204 (?f (py_split b))
                   @ replicate 204 (?f (py_split c))"
  have content: "map ?f (map py_split (drop 1 (result_file a b c))) = ?content"
    unfolding result_file_rows by simp
  have n: "length ?content div 3 = 204" by simp
  have parts: "take 204 (drop (0 * 204) ?content) = replicate 204 (?f (py_split a))"
    "take 204 (drop (1 * 204) ?content) = replicate 204 (?f (py_split b))"
    "take 204 (drop (2 * 204) ?content) = replicate 204 (?f (py_split c))"
    by simp_all
  have row: "[concat (replicate 204 (?f r)) ! 0, concat (replicate 204 (?f r)) ! 1,
              concat (replicate 204 (?f r)) ! 2] = ?f r" if "length r = 3" for r
    using concat_replicate_prefix[of 204 "?f r"] that by (simp add: upt_3)
  show ?thesis
    unfolding result_blocks_def Let_def content n upt_3 list.map parts block_first_row
    by (simp only: row[OF assms(1)] row[OF assms(2)] row[OF assms(3)])
qed

lemma results_fs_lines:
  "results_fs p = Some lines \<Longrightarrow>
   lines \<in> {result_file ''1 0 0'' ''0 1 0'' ''0 0 1'', result_file ''1 1 0'' ''0 1 1'' ''1 0 1'',
            result_file ''1 1 1'' ''1 1 1'' ''1 1 1''}"
  by (simp add: results_fs_def split: if_splits)

lemma sample_results_well_formed:
  "lines \<in> {result_file ''1 0 0'' ''0 1 0'' ''0 0 1'', result_file ''1 1 0'' ''0 1 1'' ''1 0 1'',
            result_file ''1 1 1'' ''1 1 1'' ''1 1 1''} \<Longrightarrow> result_well_formed sample_float_of lines"
  by (auto intro!: result_file_well_formed simp: sample_rows sample_float_of_def)

lemma results_fs_files:
  "\<forall>i \<in> {1..64}. \<forall>c \<in> set combinations. \<forall>lines.
     results_fs ([''data''] @ [''final_geometry'', ''result_'' @ label_of c @ ''_'' @ str_of_nat i]) = Some lines
     \<longrightarrow> result_well_formed sample_float_of lines"
  using results_fs_lines sample_results_well_formed by blast

lemma sample_combinations:
  "(80, ''t1'', ''p1'') \<in> set combinations" "(80, ''t2'', ''p1'') \<in> set combinations"
  "(140, ''t5'', ''p3'') \<in> set combinations"
  by (simp_all add: combinations_def timesteps_def pressures_def temperatures_def)

lemma sample_labels:
  "label_of (80, ''t1'', ''p1'') = ''80_t1_p1''" "label_of (80, ''t2'', ''p1'') = ''80_t2_p1''"
  "label_of (140, ''t5'', ''p3'') = ''140_t5_p3''"
  "str_of_nat 1 = ''1''" "str_of_nat 2 = ''2''" "str_of_nat 64 = ''64''"
  "run_dir 1 = ''run1''" "run_dir 2 = ''run2''" "run_dir 64 = ''run64''"
  by (simp_all add: label_of_def run_dir_def str_of_nat.simps digit_char_def)

lemma sample_results:
  "results_fs ([''data''] @ [''final_geometry'', ''result_'' @ ''80_t1_p1'' @ ''_'' @ ''1''])
     = Some (result_file ''1 0 0'' ''0 1 0'' ''0 0 1'')"
  "results_fs ([''data''] @ [''final_geometry'', ''result_'' @ ''80_t2_p1'' @ ''_'' @ ''1'']) = None"
  "results_fs ([''data''] @ [''final_geometry'', ''result_'' @ ''140_t5_p3'' @ ''_'' @ ''1''])
     = Some (result_file ''1 1 0'' ''0 1 1'' ''1 0 1'')"
  "results_fs ([''data''] @ [''final_geometry'', ''result_'' @ ''80_t1_p1'' @ ''_'' @ ''2'']) = None"
  "results_fs ([''data''] @ [''final_geometry'', ''result_'' @ ''80_t1_p1'' @ ''_'' @ ''64''])
     = Some (result_file ''1 1 1'' ''1 1 1'' ''1 1 1'')"
  by (simp_all add: results_fs_def)

lemma filter_labels:
  "map label_of (filter (\<lambda>c. P (label_of c)) cs) = filter P (map label_of cs)"
  by (induction cs) simp_all

lemma run1_labels:
  "map label_of (filter (\<lambda>c. results_fs ([''data''] @ [''final_geometry'',
        ''result_'' @ label_of c @ ''_'' @ str_of_nat 1]) \<noteq> None) combinations)
   = [''80_t1_p1'', ''140_t5_p3'']"
proof -
  let ?Q = "\<lambda>l. results_fs ([''data''] @ [''final_geometry'', ''result_'' @ l @ ''_'' @ str_of_nat 1]) \<noteq> None"
  have "map label_of (filter (\<lambda>c. ?Q (label_of c)) combinations) = filter ?Q (map label_of combinations)"
    by (rule filter_labels)
  also have "\<dots> = [''80_t1_p1'', ''140_t5_p3'']"
    unfolding combinations_labels sample_labels by (simp add: results_fs_def)
  finally show ?thesis .
qed

lemma sample_first_rows:
  "map (\<lambda>blk. blk ! 0 ! 0) (result_blocks sample_float_of (result_file ''1 0 0'' ''0 1 0'' ''0 0 1''))
     = [[1, 0, 0], [0, 1, 0], [0, 0, 1]]"
  "map (\<lambda>blk. blk ! 0 ! 0) (result_blocks sample_float_of (result_file ''1 1 0'' ''0 1 1'' ''1 0 1''))
     = [[1, 1, 0], [0, 1, 1], [1, 0, 1]]"
  "map (\<lambda>blk. blk ! 0 ! 0) (result_blocks sample_float_of (result_file ''1 1 1'' ''1 1 1'' ''1 1 1''))
     = [[1, 1, 1], [1, 1, 1], [1, 1, 1]]"
  by (simp_all add: result_file_blocks sample_rows sample_float_of_def)

theorem load_final_geometry_skips_missing_witness:
  "\<exists>m. load_final_geometry sample_float_of results_fs [''data''] = Inr m
     \<and> (\<exists>run_files g h. map_of m ''run1'' = Some run_files
           \<and> map fst run_files = [''80_t1_p1'', ''140_t5_p3'']
           \<and> map_of run_files ''80_t1_p1'' = Some g
           \<and> map (\<lambda>blk. blk ! 0 ! 0) g = [[1, 0, 0], [0, 1, 0], [0, 0, 1]]
           \<and> map_of run_files ''80_t2_p1'' = None
           \<and> map_of run_files ''140_t5_p3'' = Some h
           \<and> map (\<lambda>blk. blk ! 0 ! 0) h = [[1, 1, 0], [0, 1, 1], [1, 0, 1]])
     \<and> (\<exists>run_files. map_of m ''run2'' = Some run_files \<and> map_of run_files ''80_t1_p1'' = None)
     \<and> (\<exists>run_files g. map_of m ''run64'' = Some run_files
           \<and> map_of run_files ''80_t1_p1'' = Some g
           \<and> map (\<lambda>blk. blk ! 0 ! 0) g = [[1, 1, 1], [1, 1, 1], [1, 1, 1]])"
proof -
  note T = load_final_geometry_skips_missing[OF results_fs_files]
  from T show ?thesis
  proof (elim exE conjE)
    fix m
    let ?p = "\<lambda>c i. [''data''] @ [''final_geometry'', ''result_'' @ label_of c @ ''_'' @ str_of_nat i]"
    assume m: "load_final_geometry sample_float_of results_fs [''data''] = Inr m"
      and each: "\<forall>i \<in> {1..64}. \<exists>run_files.
                map_of m (run_dir i) = Some run_files
                \<and> (\<forall>c \<in> set combinations.
                      map_of run_files (label_of c)
                      = (case results_fs (?p c i) of
                           None \<Rightarrow> None
                         | Some lines \<Rightarrow> Some (result_blocks sample_float_of lines)))
                \<and> map fst run_files
                    = map label_of (filter (\<lambda>c. results_fs (?p c i) \<noteq> None) combinations)
                \<and> (\<forall>g \<in> snd ` set run_files. length g = 3 \<and> (\<forall>b \<in> set g. is_image 17 12 3 b))"
    have run: "\<exists>run_files. map_of m (run_dir i) = Some run_files
                \<and> (\<forall>c \<in> set combinations.
                      map_of run_files (label_of c)
                      = (case results_fs (?p c i) of
                           None \<Rightarrow> None
                         | Some lines \<Rightarrow> Some (result_blocks sample_float_of lines)))
                \<and> map fst run_files
                    = map label_of (filter (\<lambda>c. results_fs (?p c i) \<noteq> None) combinations)"
      if "i \<in> {1..64}" for i
      using each that by blast
    have "(1::nat) \<in> {1..64}" by simp
    from run[OF this] obtain r1 where r1: "map_of m (run_dir 1) = Some r1"
      and l1: "\<forall>c \<in> set combinations.
                      map_of r1 (label_of c)
                      = (case results_fs (?p c 1) of
                           None \<Rightarrow> None
                         | Some lines \<Rightarrow> Some (result_blocks sample_float_of lines))"
      and k1: "map fst r1 = map label_of (filter (\<lambda>c. results_fs (?p c 1) \<noteq> None) combinations)"
      by blast
    have a1: "map_of r1 ''80_t1_p1''
              = Some (result_blocks sample_float_of (result_file ''1 0 0'' ''0 1 0'' ''0 0 1''))"
      using l1[rule_format, OF sample_combinations(1)] by (simp only: sample_labels sample_results option.case)
    have a2: "map_of r1 ''80_t2_p1'' = None"
      using l1[rule_format, OF sample_combinations(2)] by (simp only: sample_labels sample_results option.case)
    have a3: "map_of r1 ''140_t5_p3''
              = Some (result_blocks sample_float_of (result_file ''1 1 0'' ''0 1 1'' ''1 0 1''))"
      using l1[rule_format, OF sample_combinations(3)] by (simp only: sample_labels sample_results option.case)
    have a4: "map fst r1 = [''80_t1_p1'', ''140_t5_p3'']"
      using k1 by (simp only: run1_labels)
    have "(2::nat) \<in> {1..64}" by simp
    from run[OF this] obtain r2 where r2: "map_of m (run_dir 2) = Some r2"
      and l2: "\<forall>c \<in> set combinations.
                      map_of r2 (label_of c)
                      = (case results_fs (?p c 2) of
                           None \<Rightarrow> None
                         | Some lines \<Rightarrow> Some (result_blocks sample_float_of lines))"
      by blast
    have b1: "map_of r2 ''80_t1_p1'' = None"
      using l2[rule_format, OF sample_combinations(1)] by (simp only: sample_labels sample_results option.case)
    have "(64::nat) \<in> {1..64}" by simp
    from run[OF this] obtain r64 where r64: "map_of m (run_dir 64) = Some r64"
      and l64: "\<forall>c \<in> set combinations.
                      map_of r64 (label_of c)
                      = (case results_fs (?p c 64) of
                           None \<Rightarrow> None
                         | Some lines \<Rightarrow> Some (result_blocks sample_float_of lines))"
      by blast
    have c1: "map_of r64 ''80_t1_p1''
              = Some (result_blocks sample_float_of (result_file ''1 1 1'' ''1 1 1'' ''1 1 1''))"
      using l64[rule_format, OF sample_combinations(1)] by (simp only: sample_labels sample_results option.case)
    have one: "\<exists>run_files g h. map_of m ''run1'' = Some run_files
           \<and> map fst run_files = [''80_t1_p1'', ''140_t5_p3'']
           \<and> map_of run_files ''80_t1_p1'' = Some g
           \<and> map (\<lambda>blk. blk ! 0 ! 0) g = [[1, 0, 0], [0, 1, 0], [0, 0, 1]]
           \<and> map_of run_files ''80_t2_p1'' = None
           \<and> map_of run_files ''140_t5_p3'' = Some h
           \<and> map (\<lambda>blk. blk ! 0 ! 0) h = [[1, 1, 0], [0, 1, 1], [1, 0, 1]]"
      using r1 a1 a2 a3 a4 sample_first_rows(1,2) unfolding sample_labels
      by (intro exI[of _ r1] exI[of _ "result_blocks sample_float_of (result_file ''1 0 0'' ''0 1 0'' ''0 0 1'')"]
          exI[of _ "result_blocks sample_float_of (result_file ''1 1 0'' ''0 1 1'' ''1 0 1'')"] conjI)
    have two: "\<exists>run_files. map_of m ''run2'' = Some run_files \<and> map_of run_files ''80_t1_p1'' = None"
      using r2 b1 unfolding sample_labels by (intro exI[of _ r2] conjI)
    have three: "\<exists>run_files g. map_of m ''run64'' = Some run_files
           \<and> map_of run_files ''80_t1_p1'' = Some g
           \<and> map (\<lambda>blk. blk ! 0 ! 0) g = [[1, 1, 1], [1, 1, 1], [1, 1, 1]]"
      using r64 c1 sample_first_rows(3) unfolding sample_labels
      by (intro exI[of _ r64] exI[of _ "result_blocks sample_float_of (result_file ''1 1 1'' ''1 1 1'' ''1 1 1'')"] conjI)
    show ?thesis
      using m one two three by (intro exI[of _ m] conjI)
  qed
qed







section \<open>The calls leave their arguments unchanged\<close>

lemma keeps_alloc: "keeps n (alloc a) (\<lambda>v. n \<le> v)"
  by (simp add: keeps_def alloc_def)

lemma keeps_raise: "keeps n (raise e) Q"
  by (simp add: keeps_def raise_def)

lemma keeps_return: "Q v \<Longrightarrow> keeps n (return v) Q"
  by (simp add: keeps_def return_def)

lemma keeps_load: "keeps n (load a) (\<lambda>v. True)"
  by (simp add: keeps_def load_def)

lemma keeps_store_write: "n \<le> a \<Longrightarrow> keeps n (store_write a v) (\<lambda>u. True)"
  by (simp add: keeps_def store_write_def)

lemma keeps_weaken:
  assumes "keeps n m P" "\<And>v. P v \<Longrightarrow> Q v"
  shows "keeps n m Q"
  unfolding keeps_def
proof (intro allI impI)
  fix h :: store
  assume "n \<le> length h"
  then have "case m h of (r, h') \<Rightarrow>
           n \<le> length h' \<and> take n h' = take n h \<and> (case r of Inl e \<Rightarrow> True | Inr v \<Rightarrow> P v)"
    using assms(1) by (simp add: keeps_def)
  then show "case m h of (r, h') \<Rightarrow>
           n \<le> length h' \<and> take n h' = take n h \<and> (case r of Inl e \<Rightarrow> True | Inr v \<Rightarrow> Q v)"
    using assms(2) by (auto split: prod.splits sum.splits)
qed

lemma keeps_bind:
  assumes "keeps n m P" "\<And>a. P a \<Longrightarrow> keeps n (f a) Q"
  shows "keeps n (bind m f) Q"
  unfolding keeps_def
proof (intro allI impI)
  fix h :: store
  assume n: "n \<le> length h"
  obtain r h' where mh: "m h = (r, h')" by (cases "m h")
  have m: "n \<le> length h'" "take n h' = take n h" "case r of Inl e \<Rightarrow> True | Inr v \<Rightarrow> P v"
    using assms(1) n mh by (auto simp: keeps_def dest: spec[of _ h])
  show "case bind m f h of (r, h') \<Rightarrow>
           n \<le> length h' \<and> take n h' = take n h \<and> (case r of Inl e \<Rightarrow> True | Inr v \<Rightarrow> Q v)"
  proof (cases r)
    case (Inl e)
    then show ?thesis using mh m by (simp add: bind_def)
  next
    case (Inr a)
    then have "P a" using m(3) by simp
    then have "keeps n (f a) Q" by (rule assms(2))
    then have "case f a h' of (r, h'') \<Rightarrow>
           n \<le> length h'' \<and> take n h'' = take n h' \<and> (case r of Inl e \<Rightarrow> True | Inr v \<Rightarrow> Q v)"
      using m(1) by (simp add: keeps_def)
    then show ?thesis using Inr mh m(2) by (simp add: bind_def split: prod.splits)
  qed
qed

lemma keeps_any: "keeps n m P \<Longrightarrow> keeps n m (\<lambda>v. True)"
  by (erule keeps_weaken) (rule TrueI)

lemma keeps_read:
  assumes "keeps n m (\<lambda>v. True)" "\<And>a. keeps n (f a) Q"
  shows "keeps n (bind m f) Q"
  using assms(1) by (rule keeps_bind) (rule assms(2))

lemma keeps_get_mat: "keeps n (get_mat r) (\<lambda>v. True)"
  unfolding get_mat_def
  by (cases r) (auto intro!: keeps_read keeps_load keeps_return keeps_raise split: ndarray.splits)

lemma keeps_get_vec: "keeps n (get_vec a) (\<lambda>v. True)"
  unfolding get_vec_def
  by (auto intro!: keeps_read keeps_load keeps_return keeps_raise split: ndarray.splits)

lemma keeps_get_ints: "keeps n (get_ints a) (\<lambda>v. True)"
  unfolding get_ints_def
  by (auto intro!: keeps_read keeps_load keeps_return keeps_raise split: ndarray.splits)

lemmas keeps_reads = keeps_get_mat keeps_get_vec keeps_get_ints

text \<open>Each call that returns a new array keeps the store and returns a new address.\<close>

lemma keeps_np_mean_op: "keeps n (np_mean_op X) (\<lambda>v. n \<le> v)"
  unfolding np_mean_op_def by (intro keeps_read keeps_reads keeps_alloc)

lemma keeps_sub_op: "keeps n (sub_op X m) (\<lambda>v. n \<le> v)"
  unfolding sub_op_def by (intro keeps_read keeps_reads keeps_alloc)

lemma keeps_gram_op: "keeps n (gram_op X) (\<lambda>v. n \<le> v)"
  unfolding gram_op_def by (intro keeps_read keeps_reads keeps_alloc)

lemma keeps_argsort_reversed_op: "keeps n (argsort_reversed_op w) (\<lambda>v. n \<le> v)"
  unfolding argsort_reversed_op_def by (intro keeps_read keeps_reads keeps_alloc)

lemma keeps_take_idx_op: "keeps n (take_idx_op w idx) (\<lambda>v. n \<le> v)"
  unfolding take_idx_op_def by (intro keeps_read keeps_reads keeps_alloc)

lemma keeps_take_cols_op: "keeps n (take_cols_op V idx) (\<lambda>v. n \<le> v)"
  unfolding take_cols_op_def by (intro keeps_read keeps_reads keeps_alloc)

lemma keeps_scale_op: "keeps n (scale_op w epsilon) (\<lambda>v. n \<le> v)"
  unfolding scale_op_def by (auto intro!: keeps_read keeps_reads keeps_alloc keeps_raise)

lemma keeps_np_diag_op: "keeps n (np_diag_op d) (\<lambda>v. n \<le> v)"
  unfolding np_diag_op_def by (intro keeps_read keeps_reads keeps_alloc)

lemma keeps_matmul_op: "keeps n (matmul_op A B) (\<lambda>v. n \<le> v)"
  unfolding matmul_op_def by (intro keeps_read keeps_reads keeps_alloc)

lemma keeps_eigh_op: "keeps n (eigh_op eigh cov) (\<lambda>v. True)"
  unfolding eigh_op_def
  by (cases cov)
     (auto intro!: keeps_read keeps_reads keeps_any[OF keeps_alloc] keeps_return keeps_raise
       split: prod.splits)

text \<open>
  An in-place operation keeps the buffers below \<open>n\<close> when the buffer it writes is not one
  of them.
\<close>

lemma keeps_isub_op: "n \<le> X \<Longrightarrow> keeps n (isub_op X avg) (\<lambda>u. True)"
  unfolding isub_op_def by (intro keeps_read keeps_reads keeps_store_write)

lemma keeps_imul_op: "n \<le> c \<Longrightarrow> keeps n (imul_op c f) (\<lambda>u. True)"
  unfolding imul_op_def by (intro keeps_read keeps_reads keeps_store_write)

text \<open>\<open>np.cov\<close> writes to its copy and to the product it allocated, both new.\<close>

lemma keeps_np_cov_op: "keeps n (np_cov_op m) (\<lambda>v. True)"
  unfolding np_cov_op_def
proof (rule keeps_read[OF keeps_get_mat])
  fix mv :: mat
  show "keeps n (bind (alloc (Floats2 mv)) (\<lambda>X.
       if ncols mv = 0 then bind (alloc (Floats2 [])) (\<lambda>c. return (Array c))
       else if length mv < 2 then raise NonFinite
       else
         bind (alloc (Floats1 (np_mean_axis0 mv))) (\<lambda>avg.
         bind (isub_op X avg) (\<lambda>_.
         bind (gram_op X) (\<lambda>c.
         bind (imul_op c (1 / (real (length mv) - 1))) (\<lambda>_.
         return (if ncols mv = 1 then Squeezed c else Array c))))))) (\<lambda>v. True)"
  proof (rule keeps_bind[OF keeps_alloc])
    fix X :: addr
    assume X: "n \<le> X"
    have tail: "keeps n (bind (gram_op X) (\<lambda>c.
         bind (imul_op c (1 / (real (length mv) - 1))) (\<lambda>_.
         return (if ncols mv = 1 then Squeezed c else Array c)))) (\<lambda>v. True)"
    proof (rule keeps_bind[OF keeps_gram_op])
      fix c :: addr
      assume "n \<le> c"
      then have "keeps n (imul_op c (1 / (real (length mv) - 1))) (\<lambda>u. True)"
        by (rule keeps_imul_op)
      then show "keeps n (bind (imul_op c (1 / (real (length mv) - 1))) (\<lambda>_.
         return (if ncols mv = 1 then Squeezed c else Array c))) (\<lambda>v. True)"
        by (rule keeps_read) (rule keeps_return, rule TrueI)
    qed
    have "keeps n (bind (alloc (Floats1 (np_mean_axis0 mv))) (\<lambda>avg.
         bind (isub_op X avg) (\<lambda>_.
         bind (gram_op X) (\<lambda>c.
         bind (imul_op c (1 / (real (length mv) - 1))) (\<lambda>_.
         return (if ncols mv = 1 then Squeezed c else Array c)))))) (\<lambda>v. True)"
      by (rule keeps_read[OF keeps_any[OF keeps_alloc]])
         (rule keeps_read[OF keeps_isub_op[OF X]], rule tail)
    moreover have "keeps n (bind (alloc (Floats2 [])) (\<lambda>c. return (Array c))) (\<lambda>v. True)"
      by (rule keeps_read[OF keeps_any[OF keeps_alloc]]) (rule keeps_return, rule TrueI)
    moreover have "keeps n (raise NonFinite :: ref store_op) (\<lambda>v. True)"
      by (rule keeps_raise)
    ultimately show "keeps n (if ncols mv = 0 then bind (alloc (Floats2 [])) (\<lambda>c. return (Array c))
       else if length mv < 2 then raise NonFinite
       else
         bind (alloc (Floats1 (np_mean_axis0 mv))) (\<lambda>avg.
         bind (isub_op X avg) (\<lambda>_.
         bind (gram_op X) (\<lambda>c.
         bind (imul_op c (1 / (real (length mv) - 1))) (\<lambda>_.
         return (if ncols mv = 1 then Squeezed c else Array c)))))) (\<lambda>v. True)"
      by simp
  qed
qed

lemma keeps_whitening_steps: "keeps n (whitening_steps eigh X epsilon) (\<lambda>v. True)"
  unfolding whitening_steps_def
  by (intro keeps_read keeps_any[OF keeps_np_mean_op] keeps_any[OF keeps_sub_op] keeps_np_cov_op
      keeps_eigh_op keeps_any[OF keeps_argsort_reversed_op] keeps_any[OF keeps_take_idx_op]
      keeps_any[OF keeps_take_cols_op] keeps_any[OF keeps_scale_op] keeps_any[OF keeps_np_diag_op]
      keeps_any[OF keeps_matmul_op] keeps_return TrueI
      | simp only: split_paired_all prod.case)+

lemma keeps_whiten_image_store: "keeps n (whiten_image_store eigh img epsilon) (\<lambda>v. True)"
  unfolding whiten_image_store_def
  by (auto intro!: keeps_read keeps_load keeps_return keeps_raise keeps_whitening_steps
      split: ndarray.splits)

lemma keeps_take:
  assumes "keeps (length h) m Q"
  shows "take (length h) (snd (m h)) = h"
proof -
  obtain r h' where mh: "m h = (r, h')" by (cases "m h")
  have "case m h of (r, h') \<Rightarrow>
           length h \<le> length h' \<and> take (length h) h' = take (length h) h
           \<and> (case r of Inl e \<Rightarrow> True | Inr v \<Rightarrow> Q v)"
    using assms unfolding keeps_def by (elim allE[of _ h] impE) simp_all
  then show ?thesis by (simp add: mh)
qed

lemma ncols_sub_rows_mean: "ncols (sub_rows X (np_mean_axis0 X)) = ncols X"
  by (cases X) (simp_all add: ncols_def sub_rows_def np_mean_axis0_def)

lemmas store_defs =
  whitening_steps_def np_mean_op_def sub_op_def np_cov_op_def isub_op_def gram_op_def imul_op_def
  eigh_op_def argsort_reversed_op_def
  take_idx_op_def take_cols_op_def scale_op_def np_diag_op_def matmul_op_def get_mat_def
  get_vec_def get_ints_def load_def store_write_def bind_def alloc_def raise_def return_def

lemma np_cov_op_value:
  assumes "m < length h" "h ! m = Floats2 mv"
  shows "case np_cov mv of
           Inl e \<Rightarrow> (\<exists>h'. np_cov_op m h = (Inl e, h'))
         | Inr (Scalar c) \<Rightarrow> (\<exists>a h'. np_cov_op m h = (Inr (Squeezed a), h') \<and> h' ! a = Floats2 [[c]])
         | Inr (Matrix C) \<Rightarrow>
             (\<exists>a h'. np_cov_op m h = (Inr (Array a), h') \<and> a < length h' \<and> h' ! a = Floats2 C)"
  using assms
  by (simp add: np_cov_op_def isub_op_def gram_op_def imul_op_def get_mat_def get_vec_def load_def
      store_write_def bind_def alloc_def raise_def return_def np_cov_def Let_def nth_append
      ncols_sub_rows_mean comp_def upt_conv_Cons)

lemma whitening_steps_array:
  assumes "a < length h" "h ! a = Floats2 Xv"
  shows "(\<exists>e h'. whitening_steps eigh (Array a) epsilon h = (Inl e, h')
                 \<and> pca_whitening eigh Xv epsilon = Inl e)
       \<or> (\<exists>xw m wm h' Xw mu Wm.
             whitening_steps eigh (Array a) epsilon h = (Inr (xw, m, wm), h')
             \<and> h' ! xw = Floats2 Xw \<and> h' ! m = Floats1 mu \<and> h' ! wm = Floats2 Wm
             \<and> pca_whitening eigh Xv epsilon = Inr (Xw, \<lparr>mean = mu, matrix = Wm\<rparr>))"
  using assms
  by (simp add: store_defs pca_whitening_def pca_whitening_with_def np_cov_def nth_append Let_def
      ncols_sub_rows_mean comp_def
      split: sum.splits cov_result.splits prod.splits)

lemma whiten_image_store_value:
  assumes "a < length h" "h ! a = Floats3 im"
  shows "(\<exists>e h'. whiten_image_store eigh a epsilon h = (Inl e, h')
                 \<and> whiten_image eigh im epsilon = Inl e)
       \<or> (\<exists>xw H W m wm h' Xw mu Wm.
             whiten_image_store eigh a epsilon h = (Inr (Grid xw H W, m, wm), h')
             \<and> h' ! xw = Floats2 Xw \<and> h' ! m = Floats1 mu \<and> h' ! wm = Floats2 Wm
             \<and> whiten_image eigh im epsilon
                 = Inr (reshape_image H W Xw, \<lparr>image_mean = mu, image_whitening_matrix = Wm\<rparr>))"
  using assms
  by (simp add: whiten_image_store_def store_defs whiten_image_def whiten_image_with_def np_cov_def
      nth_append Let_def ncols_sub_rows_mean comp_def
      split: sum.splits cov_result.splits prod.splits)

text \<open>
  The write primitive is what the property is about: centring in place changes the
  argument, and \<open>np.cov\<close> does overwrite a buffer, the copy it made, while the array it was
  given stays as it was.
\<close>

lemma center_in_place_mutates:
  "center_in_place 0 uncentered_store = (Inr (), [Floats2 [[-2, -4], [0, 0], [2, 4]], Floats1 [3, 6]])"
  "\<not> keeps 1 (center_in_place 0) (\<lambda>u. True)"
proof -
  show run: "center_in_place 0 uncentered_store
             = (Inr (), [Floats2 [[-2, -4], [0, 0], [2, 4]], Floats1 [3, 6]])"
    by (simp add: center_in_place_def uncentered_store_def store_defs np_mean_axis0_def sub_rows_def
        ncols_def upt_2)
  show "\<not> keeps 1 (center_in_place 0) (\<lambda>u. True)"
  proof
    assume "keeps 1 (center_in_place 0) (\<lambda>u. True)"
    then have "take 1 (snd (center_in_place 0 uncentered_store)) = take 1 uncentered_store"
      unfolding keeps_def by (elim allE[of _ uncentered_store] impE) (simp_all add: uncentered_store_def split: prod.splits)
    then show False unfolding run by (simp add: uncentered_store_def)
  qed
qed

lemma np_cov_op_writes_its_copy:
  "np_cov_op 0 uncentered_store
   = (Inr (Array 3), [Floats2 [[1, 2], [3, 6], [5, 10]], Floats2 [[-2, -4], [0, 0], [2, 4]],
                      Floats1 [3, 6], Floats2 [[4, 8], [8, 16]]])"
  by (simp add: uncentered_store_def store_defs np_mean_axis0_def sub_rows_def ncols_def upt_2)

text \<open>
  C9. Neither function changes a buffer that existed before the call, whether the call
  returns or raises: the store after the call still has every buffer it had before, with
  the same contents; the buffers that \<open>np.cov\<close> overwrites are ones the call created. In
  particular the argument (for \<open>whiten_image\<close> also through the view
  \<open>img.reshape(-1, C)\<close>) holds the same values after the call.
\<close>

theorem inputs_not_mutated:
  "take (length h) (snd (pca_whitening_store eigh X epsilon h)) = h
   \<and> take (length h) (snd (whiten_image_store eigh img epsilon h)) = h
   \<and> (\<forall>a < length h.
         snd (pca_whitening_store eigh X epsilon h) ! a = h ! a
         \<and> snd (whiten_image_store eigh img epsilon h) ! a = h ! a)"
proof -
  have p: "take (length h) (snd (pca_whitening_store eigh X epsilon h)) = h"
    unfolding pca_whitening_store_def using keeps_whitening_steps by (rule keeps_take)
  have w: "take (length h) (snd (whiten_image_store eigh img epsilon h)) = h"
    using keeps_whiten_image_store by (rule keeps_take)
  have "snd (pca_whitening_store eigh X epsilon h) ! a = h ! a" if "a < length h" for a
    using nth_take[OF that, of "snd (pca_whitening_store eigh X epsilon h)"] p by simp
  moreover have "snd (whiten_image_store eigh img epsilon h) ! a = h ! a" if "a < length h" for a
    using nth_take[OF that, of "snd (whiten_image_store eigh img epsilon h)"] w by simp
  ultimately show ?thesis using p w by blast
qed

lemma sample_store_run:
  "fst (pca_whitening_store sample_eigh (Array 0) 16 [Floats2 sample_X]) = Inr (14, 1, 13)"
  by (simp add: pca_whitening_store_def store_defs sample_X_def sample_eigh_def np_mean_axis0_def
      sub_rows_def ncols_def upt_2 sample_order take_idx_def take_cols_def Let_def)

lemma sample_store_cov:
  "snd (pca_whitening_store sample_eigh (Array 0) 16 [Floats2 sample_X]) ! 5 = Floats2 [[9, 0], [0, 0]]"
  by (simp add: pca_whitening_store_def store_defs sample_X_def sample_eigh_def np_mean_axis0_def
      sub_rows_def ncols_def upt_2 sample_order take_idx_def take_cols_def Let_def)

lemma sample_store_image_run:
  "fst (whiten_image_store sample_eigh 0 16 [Floats3 sample_img]) = Inr (Grid 14 1 3, 1, 13)"
  by (simp add: whiten_image_store_def store_defs sample_img_def sample_eigh_def np_mean_axis0_def
      reshape_rows_def sub_rows_def ncols_def upt_2 sample_order take_idx_def
      take_cols_def Let_def)

theorem inputs_not_mutated_witness:
  "fst (pca_whitening_store sample_eigh (Array 0) 16 [Floats2 sample_X]) = Inr (14, 1, 13)
   \<and> snd (pca_whitening_store sample_eigh (Array 0) 16 [Floats2 sample_X]) ! 0 = Floats2 sample_X
   \<and> snd (pca_whitening_store sample_eigh (Array 0) 16 [Floats2 sample_X]) ! 5 = Floats2 [[9, 0], [0, 0]]
   \<and> fst (whiten_image_store sample_eigh 0 16 [Floats3 sample_img]) = Inr (Grid 14 1 3, 1, 13)
   \<and> snd (whiten_image_store sample_eigh 0 16 [Floats3 sample_img]) ! 0 = Floats3 sample_img"
proof -
  have "snd (pca_whitening_store sample_eigh (Array 0) 16 [Floats2 sample_X]) ! 0
        = [Floats2 sample_X] ! 0"
    using inputs_not_mutated[of "[Floats2 sample_X]" sample_eigh "Array 0" 16 0] by simp
  moreover have "snd (whiten_image_store sample_eigh 0 16 [Floats3 sample_img]) ! 0
        = [Floats3 sample_img] ! 0"
    using inputs_not_mutated[of "[Floats3 sample_img]" sample_eigh "Array 0" 16 0] by simp
  ultimately show ?thesis
    using sample_store_run sample_store_cov sample_store_image_run by simp
qed

end
